theory Spec2Isabelle
  imports Complex_Main "HOL-Library.Word" "HOL-Library.Log_Nat"
begin

section \<open>Values shared by the tunnel and its links\<close>

text \<open>
  The tunnel package of go-micro (\<^verbatim>\<open>tunnel/default.go\<close>, \<^verbatim>\<open>tunnel/link.go\<close>,
  \<^verbatim>\<open>tunnel/tunnel.go\<close>) is embedded as pure functions over records. A Go pointer to a
  struct whose aliasing plays no role is the record itself; a channel is a list (its buffer)
  or a flag (a channel that is only ever closed); a goroutine's \<^verbatim>\<open>select\<close> whose
  outcome depends on the scheduler or on the peer takes that outcome as an argument.
\<close>

text \<open>\<^verbatim>\<open>type Mode uint8\<close> with \<^verbatim>\<open>Unicast Mode = iota\<close>, \<^verbatim>\<open>Multicast\<close>, \<^verbatim>\<open>Broadcast\<close>.\<close>

type_synonym Mode = "8 word"

definition Unicast :: Mode where "Unicast = 0"
definition Multicast :: Mode where "Multicast = 1"
definition Broadcast :: Mode where "Broadcast = 2"

text \<open>
  Go errors. \<open>EOF\<close> is \<^verbatim>\<open>io.EOF\<close>; the three \<open>Err\<close> constructors are the package's
  sentinel values; \<open>ErrorNew s\<close> is any other error value, such as the result of
  \<^verbatim>\<open>errors.New(s)\<close> or an error of the transport. \<open>Error\<close> is the method
  \<^verbatim>\<open>Error() string\<close>. \<open>Panic s\<close> is not a returned value: it marks a run-time panic.
\<close>

datatype error = EOF | ErrDialTimeout | ErrDiscoverChan | ErrLinkNotFound | ErrorNew string | Panic string

fun Error :: "error \<Rightarrow> string" where
  "Error EOF = ''EOF''"
| "Error ErrDialTimeout = ''dial timeout''"
| "Error ErrDiscoverChan = ''failed to discover channel''"
| "Error ErrLinkNotFound = ''link not found''"
| "Error (ErrorNew s) = s"
| "Error (Panic s) = s"

text \<open>
  \<^verbatim>\<open>transport.Message\<close>: a header map and a body. The header is an association list
  (a Go map has one entry per key; iteration order is not used by any function here).
\<close>

record Message =
  Header :: "(string \<times> string) list"
  Body :: "8 word list"

text \<open>\<^verbatim>\<open>packet\<close> of link.go; the one-shot \<^verbatim>\<open>status\<close> channel is the outcome argument of \<open>Send\<close>.\<close>

record packet =
  message :: Message
  err :: "error option"

section \<open>Go's float64\<close>

text \<open>
  The link metrics are computed in IEEE 754 binary64 with round-to-nearest, ties-to-even.
  A value is a real number (the exact value of the double), an infinity or NaN. The sign of
  zero is not tracked: every division below has a non-negative divisor. \<open>expo x\<close> is
  \<open>\<lfloor>log\<^sub>2 \<bar>x\<bar>\<rfloor>\<close>; \<open>f64_round\<close> rounds a real to the nearest double (53 significant bits,
  smallest exponent -1022, overflow to infinity from \<open>2^1024\<close>). Every operation rounds
  on its own: the fused multiply-add that Go allows a compiler to emit on some platforms is
  not modelled.
\<close>

datatype float64 = Finite real | PosInf | NegInf | NaN

definition pow2 :: "int \<Rightarrow> real" where
  "pow2 k = (if 0 \<le> k then 2 ^ nat k else 1 / 2 ^ nat (- k))"

definition expo :: "real \<Rightarrow> int" where
  "expo x = (if 1 \<le> \<bar>x\<bar> then bitlen \<lfloor>\<bar>x\<bar>\<rfloor> - 1 else - bitlen (\<lceil>1 / \<bar>x\<bar>\<rceil> - 1))"

definition round_even :: "real \<Rightarrow> int" where
  "round_even x = (let f = \<lfloor>x\<rfloor>; r = x - of_int f in
     if r < 1 / 2 then f else if 1 / 2 < r then f + 1 else if even f then f else f + 1)"

definition f64_round :: "real \<Rightarrow> float64" where
  "f64_round x = (if x = 0 then Finite 0 else
     let q = pow2 (max (expo x) (- 1022) - 52);
         y = of_int (round_even (x / q)) * q
     in if 2 ^ 1024 \<le> \<bar>y\<bar> then (if 0 < x then PosInf else NegInf) else Finite y)"

text \<open>The conversion \<^verbatim>\<open>float64(i)\<close> of an int64.\<close>

definition float64_of_int :: "int \<Rightarrow> float64" where
  "float64_of_int i = f64_round (of_int i)"

fun fmul :: "float64 \<Rightarrow> float64 \<Rightarrow> float64" where
  "fmul NaN _ = NaN"
| "fmul _ NaN = NaN"
| "fmul (Finite a) (Finite b) = f64_round (a * b)"
| "fmul (Finite a) PosInf = (if a = 0 then NaN else if 0 < a then PosInf else NegInf)"
| "fmul (Finite a) NegInf = (if a = 0 then NaN else if 0 < a then NegInf else PosInf)"
| "fmul PosInf (Finite b) = (if b = 0 then NaN else if 0 < b then PosInf else NegInf)"
| "fmul NegInf (Finite b) = (if b = 0 then NaN else if 0 < b then NegInf else PosInf)"
| "fmul PosInf PosInf = PosInf"
| "fmul PosInf NegInf = NegInf"
| "fmul NegInf PosInf = NegInf"
| "fmul NegInf NegInf = PosInf"

fun fadd :: "float64 \<Rightarrow> float64 \<Rightarrow> float64" where
  "fadd NaN _ = NaN"
| "fadd _ NaN = NaN"
| "fadd (Finite a) (Finite b) = f64_round (a + b)"
| "fadd (Finite a) PosInf = PosInf"
| "fadd (Finite a) NegInf = NegInf"
| "fadd PosInf (Finite b) = PosInf"
| "fadd NegInf (Finite b) = NegInf"
| "fadd PosInf PosInf = PosInf"
| "fadd PosInf NegInf = NaN"
| "fadd NegInf PosInf = NaN"
| "fadd NegInf NegInf = NegInf"

text \<open>Division; a zero divisor is \<open>+0\<close>.\<close>

fun fdiv :: "float64 \<Rightarrow> float64 \<Rightarrow> float64" where
  "fdiv NaN _ = NaN"
| "fdiv _ NaN = NaN"
| "fdiv (Finite a) (Finite b) =
     (if b = 0 then (if a = 0 then NaN else if 0 < a then PosInf else NegInf)
      else f64_round (a / b))"
| "fdiv (Finite a) PosInf = Finite 0"
| "fdiv (Finite a) NegInf = Finite 0"
| "fdiv PosInf (Finite b) = (if 0 \<le> b then PosInf else NegInf)"
| "fdiv NegInf (Finite b) = (if 0 \<le> b then NegInf else PosInf)"
| "fdiv PosInf PosInf = NaN"
| "fdiv PosInf NegInf = NaN"
| "fdiv NegInf PosInf = NaN"
| "fdiv NegInf NegInf = NaN"

text \<open>The comparisons \<^verbatim>\<open><\<close> and \<^verbatim>\<open>==\<close>; both are false when an operand is NaN.\<close>

fun flt :: "float64 \<Rightarrow> float64 \<Rightarrow> bool" where
  "flt (Finite a) (Finite b) = (a < b)"
| "flt (Finite a) PosInf = True"
| "flt NegInf (Finite b) = True"
| "flt NegInf PosInf = True"
| "flt _ _ = False"

fun feq :: "float64 \<Rightarrow> float64 \<Rightarrow> bool" where
  "feq (Finite a) (Finite b) = (a = b)"
| "feq PosInf PosInf = True"
| "feq NegInf NegInf = True"
| "feq _ _ = False"

text \<open>
  The conversion \<^verbatim>\<open>int64(f)\<close> truncates towards zero. Where the value does not fit
  (or is not a number) Go leaves the result to the implementation: that value is the
  argument \<open>ub\<close>.
\<close>

definition int64_of_float64 :: "int \<Rightarrow> float64 \<Rightarrow> int" where
  "int64_of_float64 ub f = (case f of
       Finite y \<Rightarrow> (if - (2 ^ 63) \<le> y \<and> y < 2 ^ 63
                     then (if 0 \<le> y then \<lfloor>y\<rfloor> else \<lceil>y\<rceil>) else ub)
     | _ \<Rightarrow> ub)"

text \<open>The constants \<^verbatim>\<open>0.8\<close>, \<^verbatim>\<open>0.2\<close> and \<^verbatim>\<open>1e9\<close> as float64 values.\<close>

definition c08 :: float64 where "c08 = f64_round (8 / 10)"
definition c02 :: float64 where "c02 = f64_round (2 / 10)"
definition c1e9 :: float64 where "c1e9 = f64_round 1000000000"

section \<open>The link (link.go)\<close>

text \<open>
  \<^verbatim>\<open>type link struct\<close>. \<open>id_l\<close> is the field \<^verbatim>\<open>id\<close> and \<open>length_l\<close> the field
  \<^verbatim>\<open>length\<close>. \<open>closed\<close> says that the channel \<^verbatim>\<open>closed\<close> has been closed;
  \<open>socketCloses\<close> counts the calls of \<^verbatim>\<open>Socket.Close()\<close> and \<open>remote\<close> is what
  \<^verbatim>\<open>Socket.Remote()\<close> returns. Times are nanoseconds, the zero \<^verbatim>\<open>time.Time\<close> being 0.
  The queues hold the packets buffered in the three channels (capacities 64, 128, 128).
\<close>

record link =
  remote :: string
  socketCloses :: nat
  closed :: bool
  state :: "packet list"
  sendQueue :: "packet list"
  recvQueue :: "packet list"
  id_l :: string
  loopback :: bool
  connected :: bool
  lastKeepAlive :: int
  channels :: "string \<rightharpoonup> int"
  length_l :: int
  rate :: float64
  errCount :: "64 word"

text \<open>
  \<^verbatim>\<open>newLink\<close>: \<open>r\<close> is the remote address of the socket, \<open>u\<close> the generated id and
  \<open>now\<close> the time of creation. The fields it does not set have Go's zero values.
\<close>

definition newLink :: "string \<Rightarrow> string \<Rightarrow> int \<Rightarrow> link" where
  "newLink r u now =
     \<lparr>remote = r, socketCloses = 0, closed = False, state = [], sendQueue = [], recvQueue = [],
      id_l = u, loopback = False, connected = False, lastKeepAlive = now,
      channels = Map.empty, length_l = 0, rate = Finite 0, errCount = 0\<rparr>"

text \<open>\<^verbatim>\<open>setRate\<close>: bits per nanosecond, scaled to bits per second, averaged into \<open>rate\<close>.\<close>

definition setRate :: "int \<Rightarrow> int \<Rightarrow> link \<Rightarrow> link" where
  "setRate bits delta l =
     (let r = fdiv (float64_of_int bits) (float64_of_int delta) in
      if feq (rate l) (Finite 0) then l\<lparr>rate := fmul r c1e9\<rparr>
      else l\<lparr>rate := fadd (fmul c08 (rate l)) (fmul c02 (fmul r c1e9))\<rparr>)"

text \<open>\<^verbatim>\<open>setRTT\<close>; \<open>d\<close> is \<^verbatim>\<open>d.Nanoseconds()\<close>.\<close>

definition setRTT :: "int \<Rightarrow> int \<Rightarrow> link \<Rightarrow> link" where
  "setRTT ub d l =
     (if length_l l \<le> 0 then l\<lparr>length_l := d\<rparr>
      else l\<lparr>length_l :=
             int64_of_float64 ub
               (fadd (fmul c08 (float64_of_int (length_l l))) (fmul c02 (float64_of_int d)))\<rparr>)"

definition delChannel :: "string \<Rightarrow> link \<Rightarrow> link" where
  "delChannel ch l = l\<lparr>channels := (channels l)(ch := None)\<rparr>"

text \<open>\<^verbatim>\<open>getChannel\<close>: a missing key reads as the zero time.\<close>

definition getChannel :: "link \<Rightarrow> string \<Rightarrow> int" where
  "getChannel l ch = (case channels l ch of None \<Rightarrow> 0 | Some t \<Rightarrow> t)"

text \<open>\<^verbatim>\<open>setChannel\<close>; \<open>now\<close> is \<^verbatim>\<open>time.Now()\<close>.\<close>

fun setChannel :: "int \<Rightarrow> string list \<Rightarrow> link \<Rightarrow> link" where
  "setChannel now [] l = l"
| "setChannel now (ch # chs) l = setChannel now chs (l\<lparr>channels := (channels l)(ch \<mapsto> now)\<rparr>)"

definition keepalive :: "int \<Rightarrow> link \<Rightarrow> link" where
  "keepalive now l = l\<lparr>lastKeepAlive := now\<rparr>"

definition Delay :: "link \<Rightarrow> int" where
  "Delay l = int (length (sendQueue l) + length (recvQueue l))"

definition Rate :: "link \<Rightarrow> float64" where
  "Rate l = rate l"

definition Length :: "link \<Rightarrow> int" where
  "Length l = length_l l"

definition Id :: "link \<Rightarrow> string" where
  "Id l = id_l l"

text \<open>\<^verbatim>\<open>Close\<close>: the returned error is always nil.\<close>

definition Close :: "link \<Rightarrow> error option \<times> link" where
  "Close l =
     (if closed l then (None, l)
      else (None, l\<lparr>socketCloses := Suc (socketCloses l), closed := True\<rparr>))"

text \<open>\<^verbatim>\<open>State\<close>; \<^verbatim>\<open>errCount\<close> is a signed 64-bit \<^verbatim>\<open>int\<close>.\<close>

definition State :: "link \<Rightarrow> string" where
  "State l =
     (if closed l then ''closed''
      else if 3 <s errCount l then ''error'' else ''connected'')"

text \<open>
  \<^verbatim>\<open>Send\<close>. The link can be closed by another goroutine while \<open>Send\<close> runs, and the
  outcome of its last two \<^verbatim>\<open>select\<close> statements is the argument: \<open>ClosedQueuing\<close>
  when \<^verbatim>\<open><-l.closed\<close> is taken instead of queuing the packet, \<open>ClosedWaiting taken\<close> when
  the packet is queued and \<^verbatim>\<open><-l.closed\<close> is taken instead of the status (\<open>taken\<close>: the
  send pump had already removed the packet from the queue), \<open>Status r\<close> when the send pump
  reports the result \<open>r\<close> of \<^verbatim>\<open>l.send\<close>, that is of the transport's \<^verbatim>\<open>Socket.Send\<close>.
  In the two closed outcomes the returned state is the one after that concurrent
  \<^verbatim>\<open>Close\<close>. \<open>delta\<close> is \<^verbatim>\<open>time.Since(now)\<close> in nanoseconds. \<open>dataSent\<close> is the local
  variable of that name; \<^verbatim>\<open>dataSent * 1024\<close> is a 64-bit \<^verbatim>\<open>int\<close>.
\<close>

datatype send_event = ClosedQueuing | ClosedWaiting bool | Status "error option"

definition dataSent :: "Message \<Rightarrow> int" where
  "dataSent m =
     int (length (Body m)) + sum_list (map (\<lambda>(k, v). int (length k) + int (length v)) (Header m))"

definition Send :: "send_event \<Rightarrow> int \<Rightarrow> Message \<Rightarrow> link \<Rightarrow> error option \<times> link" where
  "Send ev delta m l =
     (if closed l then (Some EOF, l)
      else case ev of
        ClosedQueuing \<Rightarrow> (Some EOF, snd (Close l))
      | ClosedWaiting taken \<Rightarrow>
          (Some EOF,
           (snd (Close l))\<lparr>sendQueue :=
              (if taken then sendQueue l else sendQueue l @ [\<lparr>message = m, err = None\<rparr>])\<rparr>)
      | Status (Some e) \<Rightarrow> (Some e, l\<lparr>errCount := errCount l + 1\<rparr>)
      | Status None \<Rightarrow>
          (let l1 = l\<lparr>errCount := 0\<rparr> in
           if 0 < dataSent m
           then (None, setRate (sint (word_of_int (dataSent m * 1024) :: 64 word)) delta l1)
           else (None, l1)))"

text \<open>
  \<^verbatim>\<open>Recv\<close>. \<open>None\<close>: the call blocks (the link is open and nothing is buffered). When
  the link is closed and a packet is buffered, both cases of the outer \<^verbatim>\<open>select\<close> are
  ready; \<open>viaClosed\<close> says the scheduler takes \<^verbatim>\<open>case <-l.closed\<close>. The result is
  the error returned, or else the message stored through the pointer argument.
\<close>

definition serve :: "packet \<Rightarrow> error + Message" where
  "serve pk = (case err pk of Some e \<Rightarrow> Inl e | None \<Rightarrow> Inr (message pk))"

definition Recv :: "bool \<Rightarrow> link \<Rightarrow> ((error + Message) \<times> link) option" where
  "Recv viaClosed l =
     (if closed l \<and> (viaClosed \<or> recvQueue l = [])
      then (case recvQueue l of
              pk # q \<Rightarrow> Some (serve pk, l\<lparr>recvQueue := q\<rparr>)
            | [] \<Rightarrow> Some (Inl EOF, l))
      else (case recvQueue l of
              pk # q \<Rightarrow> Some (serve pk, l\<lparr>recvQueue := q\<rparr>)
            | [] \<Rightarrow> None))"

text \<open>
  One round of the receive goroutine of \<^verbatim>\<open>process\<close>: \<open>m\<close> and \<open>e\<close> are the message
  and the error of \<^verbatim>\<open>l.recv\<close>. A link state packet goes to the \<^verbatim>\<open>state\<close> channel unless
  that is full; any other packet goes to the receive queue, unless the goroutine returns
  on \<^verbatim>\<open><-l.closed\<close> (\<open>viaClosed\<close>: the scheduler's choice when both are ready) or blocks
  on a full queue.
\<close>

datatype pump = Continue link | Return link | Blocked link

definition recv_round :: "bool \<Rightarrow> Message \<Rightarrow> error option \<Rightarrow> link \<Rightarrow> pump" where
  "recv_round viaClosed m e l =
     (let l1 = (if e \<noteq> None then l\<lparr>errCount := errCount l + 1\<rparr> else l);
          pk = \<lparr>message = m, err = e\<rparr> in
      if map_of (Header m) ''Micro-Method'' = Some ''link''
      then Continue (if length (state l1) < 64 then l1\<lparr>state := state l1 @ [pk]\<rparr> else l1)
      else if closed l1 \<and> (viaClosed \<or> 128 \<le> length (recvQueue l1)) then Return l1
      else if length (recvQueue l1) < 128 then Continue (l1\<lparr>recvQueue := recvQueue l1 @ [pk]\<rparr>)
      else Blocked l1)"

fun pump_link :: "pump \<Rightarrow> link" where
  "pump_link (Continue l) = l"
| "pump_link (Return l) = l"
| "pump_link (Blocked l) = l"

text \<open>
  The link state branch of \<^verbatim>\<open>manage\<close>, for one packet \<open>p\<close> of the \<^verbatim>\<open>state\<close> channel:
  a request is answered with a response, a response updates the round trip time with the
  time \<open>d\<close> since the request.
\<close>

definition linkRequest :: "8 word list" where "linkRequest = [0, 0, 0, 0]"
definition linkResponse :: "8 word list" where "linkResponse = [1, 1, 1, 1]"

definition manage_state :: "send_event \<Rightarrow> int \<Rightarrow> int \<Rightarrow> int \<Rightarrow> packet \<Rightarrow> link \<Rightarrow> link" where
  "manage_state ev delta ub d p l =
     (if err p \<noteq> None then l
      else if Body (message p) = linkRequest
      then (case Send ev delta \<lparr>Header = [(''Micro-Method'', ''link'')], Body = linkResponse\<rparr> l of
              (Some e, l') \<Rightarrow> l'\<lparr>errCount := errCount l' + 1\<rparr>
            | (None, l') \<Rightarrow> l')
      else if Body (message p) = linkResponse then setRTT ub d l
      else l)"

section \<open>The tunnel (default.go)\<close>

text \<open>
  \<^verbatim>\<open>session\<close>: the fields that default.go reads or writes. \<open>closed\<close> and \<open>wait\<close> say
  that the channel of that name has been closed. A session reached through the sessions
  map is the map's entry: an assignment through the pointer updates the entry.
\<close>

record session =
  tunnel :: string
  channel :: string
  session :: string
  token :: string
  closed :: bool
  wait :: bool
  remote :: string
  local :: string
  outbound :: bool
  mode :: Mode
  timeout :: int
  discovered :: bool
  accepted :: bool
  link :: string

text \<open>
  \<^verbatim>\<open>message\<close>, the envelope on the tunnel's send channel; \<open>typ_m\<close> is the field
  \<^verbatim>\<open>typ\<close>. \<open>errChan\<close> is \<open>None\<close> for a
  nil channel and otherwise the buffer (capacity 1) of the error channel.
\<close>

record message =
  typ_m :: string
  tunnel :: string
  channel :: string
  session :: string
  mode :: Mode
  outbound :: bool
  loopback :: bool
  link :: string
  data :: "Message option"
  errChan :: "error option list option"

text \<open>
  \<^verbatim>\<open>tun\<close>. \<open>id_t\<close> is the field \<^verbatim>\<open>id\<close> and \<open>nodes\<close> is \<^verbatim>\<open>options.Nodes\<close>. The links map
  is a list of (node, link) pairs
  with distinct nodes; its order is the order in which a \<^verbatim>\<open>range\<close> loop visits the map,
  which Go leaves open.
\<close>

record tun =
  nodes :: "string list"
  id_t :: string
  token :: string
  connected :: bool
  closed :: bool
  sessions :: "string \<rightharpoonup> session"
  links :: "(string \<times> link) list"

definition newTunnel :: "string list \<Rightarrow> string \<Rightarrow> string \<Rightarrow> tun" where
  "newTunnel nds i tok =
     \<lparr>nodes = nds, id_t = i, tun.token = tok, tun.connected = False, tun.closed = False,
      sessions = Map.empty, links = []\<rparr>"

definition getSession :: "string \<Rightarrow> string \<Rightarrow> tun \<Rightarrow> session option" where
  "getSession ch sid t = sessions t (ch @ sid)"

text \<open>
  \<^verbatim>\<open>delSession\<close>: \<^verbatim>\<open>s.Close()\<close> acts on the session, which leaves the map with the
  \<^verbatim>\<open>delete\<close>.
\<close>

definition delSession :: "string \<Rightarrow> string \<Rightarrow> tun \<Rightarrow> tun" where
  "delSession ch sid t = t\<lparr>sessions := (sessions t)(ch @ sid := None)\<rparr>"

text \<open>\<^verbatim>\<open>newSession\<close>: the fields it does not set have Go's zero values.\<close>

definition newSession :: "string \<Rightarrow> string \<Rightarrow> tun \<Rightarrow> session option \<times> tun" where
  "newSession ch sessionId t =
     (let s = \<lparr>session.tunnel = id_t t, session.channel = ch, session.session = sessionId,
               session.token = tun.token t, session.closed = False, wait = False,
               session.remote = [], local = [], session.outbound = False, session.mode = 0,
               timeout = 0, discovered = False, accepted = False, session.link = []\<rparr>
      in case sessions t (ch @ sessionId) of
           Some _ \<Rightarrow> (None, t)
         | None \<Rightarrow> (Some s, t\<lparr>sessions := (sessions t)(ch @ sessionId \<mapsto> s)\<rparr>))"

text \<open>\<^verbatim>\<open>delLink\<close>: every link with that id is closed and leaves the map.\<close>

definition delLink :: "string \<Rightarrow> tun \<Rightarrow> tun" where
  "delLink r t = t\<lparr>links := filter (\<lambda>(node, l). id_l l \<noteq> r) (links t)\<rparr>"

subsection \<open>The outbound multiplexer\<close>

text \<open>
  \<^verbatim>\<open>process\<close>, for one envelope taken from the send channel. \<open>newMessage\<close> builds the
  transport message; \<open>hset\<close> is the assignment \<^verbatim>\<open>Header[k] = v\<close>.
\<close>

definition hset :: "string \<Rightarrow> string \<Rightarrow> (string \<times> string) list \<Rightarrow> (string \<times> string) list" where
  "hset k v h = (k, v) # filter (\<lambda>kv. fst kv \<noteq> k) h"

definition newMessage :: "message \<Rightarrow> Message" where
  "newMessage msg =
     (let h = (case data msg of None \<Rightarrow> [] | Some d \<Rightarrow> fold (\<lambda>(k, v). hset k v) (Header d) []);
          b = (case data msg of None \<Rightarrow> [] | Some d \<Rightarrow> Body d)
      in \<lparr>Header = hset ''Micro-Tunnel-Session'' (message.session msg)
                     (hset ''Micro-Tunnel-Channel'' (message.channel msg)
                       (hset ''Micro-Tunnel-Id'' (message.tunnel msg)
                         (hset ''Micro-Tunnel'' (typ_m msg) h))),
          Body = b\<rparr>)"

text \<open>
  The loop that builds \<^verbatim>\<open>sendTo\<close>, with the variable \<^verbatim>\<open>err\<close>. A candidate keeps its
  node, which stands for the pointer to the link.
\<close>

fun build_sendTo ::
  "message \<Rightarrow> (string \<times> link) list \<Rightarrow> error option \<times> (string \<times> link) list
     \<Rightarrow> error option \<times> (string \<times> link) list" where
  "build_sendTo msg [] acc = acc"
| "build_sendTo msg ((node, l) # rest) (er, sendTo) =
     (if \<not> link.connected l
      then build_sendTo msg rest (Some (ErrorNew ''link not connected''), sendTo)
      else if link.loopback l \<and> message.outbound msg
      then build_sendTo msg rest (Some (ErrorNew ''link is loopback''), sendTo)
      else if message.loopback msg \<and> \<not> link.loopback l
      then build_sendTo msg rest (Some (ErrorNew ''link is not loopback''), sendTo)
      else if message.mode msg = Multicast
      then (if channels l (message.channel msg) = None
            then build_sendTo msg rest (er, sendTo)
            else build_sendTo msg rest (er, sendTo @ [(node, l)]))
      else if 0 < length (message.link msg) \<and> id_l l \<noteq> message.link msg
      then build_sendTo msg rest (Some (ErrorNew ''link not found''), sendTo)
      else build_sendTo msg rest (er, sendTo @ [(node, l)]))"

text \<open>
  The send loop. \<open>evs i\<close> is the outcome and the duration of the \<open>i\<close>-th \<^verbatim>\<open>link.Send\<close>.
  A send updates the link, in the links map too; after a failed send \<^verbatim>\<open>delLink\<close>
  closes and removes every link with the id \<^verbatim>\<open>link.Remote()\<close>, among them candidates
  still to come. \<open>attempted\<close> lists the nodes of the candidates on which \<^verbatim>\<open>link.Send\<close>
  was called, each with the error returned.
\<close>

record sending =
  s_tun :: tun
  sent :: bool
  s_err :: "error option"
  attempted :: "(string \<times> error option) list"

definition store_link :: "string \<Rightarrow> link \<Rightarrow> tun \<Rightarrow> tun" where
  "store_link node l t = t\<lparr>links := map (\<lambda>(n, k). if n = node then (n, l) else (n, k)) (links t)\<rparr>"

fun send_loop ::
  "Mode \<Rightarrow> Message \<Rightarrow> (nat \<Rightarrow> send_event \<times> int) \<Rightarrow> nat \<Rightarrow> (string \<times> link) list
     \<Rightarrow> sending \<Rightarrow> sending" where
  "send_loop md newMsg evs i [] st = st"
| "send_loop md newMsg evs i ((node, l) # rest) st =
     (case Send (fst (evs i)) (snd (evs i)) newMsg l of
        (Some errr, l') \<Rightarrow>
          send_loop md newMsg evs (Suc i)
            (map (\<lambda>(n, k). (n, if id_l k = link.remote l' then snd (Close k) else k)) rest)
            (st\<lparr>s_tun := delLink (link.remote l') (store_link node l' (s_tun st)),
                s_err := Some (ErrorNew (Error errr)),
                attempted := attempted st @ [(node, Some errr)]\<rparr>)
      | (None, l') \<Rightarrow>
          (let st' = st\<lparr>s_tun := store_link node l' (s_tun st), sent := True,
                         attempted := attempted st @ [(node, None)]\<rparr>
           in if Unicast < md then send_loop md newMsg evs (Suc i) rest st' else st'))"

definition process :: "(nat \<Rightarrow> send_event \<times> int) \<Rightarrow> message \<Rightarrow> tun \<Rightarrow> sending" where
  "process evs msg t =
     (case build_sendTo msg (links t) (None, []) of
        (er, sendTo) \<Rightarrow>
          send_loop (message.mode msg) (newMessage msg) evs 0 sendTo
            \<lparr>s_tun = t, sent = False, s_err = er, attempted = []\<rparr>)"

text \<open>
  The end of the round: \<^verbatim>\<open>gerr\<close>, and the envelope's error channel after the
  non-blocking send.
\<close>

definition gerr :: "sending \<Rightarrow> error option" where
  "gerr st = (if \<not> sent st then s_err st else None)"

definition report :: "sending \<Rightarrow> message \<Rightarrow> error option list option" where
  "report st msg =
     (case errChan msg of
        None \<Rightarrow> None
      | Some buf \<Rightarrow> (if length buf < 1 then Some (buf @ [gerr st]) else Some buf))"

subsection \<open>Link selection\<close>

text \<open>
  The loop of \<^verbatim>\<open>pickLink\<close>: \<open>i\<close> is the index of the \<^verbatim>\<open>range\<close> loop, the pair holds
  the variables \<^verbatim>\<open>metric\<close> and \<^verbatim>\<open>chosen\<close> (\<open>None\<close> for nil).
\<close>

fun pickLink_loop :: "nat \<Rightarrow> link list \<Rightarrow> float64 \<times> link option \<Rightarrow> float64 \<times> link option" where
  "pickLink_loop i [] acc = acc"
| "pickLink_loop i (l # ls) (metric, chosen) =
     (if State l \<noteq> ''connected'' then pickLink_loop (Suc i) ls (metric, chosen)
      else let m = fmul (fmul (float64_of_int (Delay l)) (float64_of_int (Length l))) (Rate l) in
        if i = 0 then pickLink_loop (Suc i) ls (m, Some l)
        else if flt m metric then pickLink_loop (Suc i) ls (m, Some l)
        else pickLink_loop (Suc i) ls (metric, chosen))"

text \<open>
  \<^verbatim>\<open>pickLink\<close>. \<open>intn\<close> is the number drawn by \<^verbatim>\<open>rand.Intn(len(links))\<close>, which panics
  on an empty list (\<open>None\<close>).
\<close>

definition pickLink :: "nat \<Rightarrow> link list \<Rightarrow> link option" where
  "pickLink intn ls =
     (case snd (pickLink_loop 0 ls (Finite 0, None)) of
        Some l \<Rightarrow> Some l
      | None \<Rightarrow> (if ls = [] then None else Some (ls ! (intn mod length ls))))"

subsection \<open>Close, Dial and Listen\<close>

text \<open>
  \<^verbatim>\<open>close\<close> and \<^verbatim>\<open>Close\<close> of the tunnel (\<open>close_t\<close>, \<open>Close_t\<close>). Every session and every
  link is closed and deleted from its map; \<open>lerr\<close> is the result of
  \<^verbatim>\<open>t.listener.Close()\<close>.
\<close>

definition close_t :: "error option \<Rightarrow> tun \<Rightarrow> error option \<times> tun" where
  "close_t lerr t = (lerr, t\<lparr>sessions := Map.empty, links := []\<rparr>)"

definition Close_t :: "error option \<Rightarrow> tun \<Rightarrow> error option \<times> tun" where
  "Close_t lerr t =
     (if \<not> tun.connected t then (None, t)
      else if tun.closed t then (None, t)
      else close_t lerr (t\<lparr>tun.closed := True, tun.connected := False\<rparr>))"

text \<open>
  \<^verbatim>\<open>setupLinks\<close> and \<^verbatim>\<open>Connect\<close>. \<open>setup node\<close> is the link that \<^verbatim>\<open>setupLink(node)\<close>
  returns (\<open>None\<close> for an error) and \<open>cerr\<close> the result of \<^verbatim>\<open>t.connect()\<close>.
\<close>

fun setupLinks :: "(string \<Rightarrow> link option) \<Rightarrow> string list \<Rightarrow> tun \<Rightarrow> tun" where
  "setupLinks setup [] t = t"
| "setupLinks setup (node # rest) t =
     (if length node = 0 then setupLinks setup rest t
      else if map_of (links t) node \<noteq> None then setupLinks setup rest t
      else (case setup node of
              None \<Rightarrow> setupLinks setup rest t
            | Some l \<Rightarrow> setupLinks setup rest (t\<lparr>links := links t @ [(node, l)]\<rparr>)))"

definition Connect ::
  "error option \<Rightarrow> (string \<Rightarrow> link option) \<Rightarrow> tun \<Rightarrow> error option \<times> tun" where
  "Connect cerr setup t =
     (if tun.connected t then (None, setupLinks setup (nodes t) t)
      else (case cerr of
              Some e \<Rightarrow> (Some e, t)
            | None \<Rightarrow>
                (None, setupLinks setup (nodes t)
                         (t\<lparr>tun.connected := True, tun.closed := False\<rparr>))))"

text \<open>
  What \<^verbatim>\<open>Dial\<close> takes from its environment: the fresh id of \<^verbatim>\<open>newSessionId\<close>, the
  random number of \<^verbatim>\<open>pickLink\<close>, the results of \<^verbatim>\<open>c.Discover()\<close> and \<^verbatim>\<open>c.Open()\<close>, the
  two measured durations and the implementation's out-of-range int64.
\<close>

record dial_env =
  uuid :: string
  intn :: nat
  discover :: "error + string"
  opened :: "error option"
  sinceDiscover :: int
  sinceOpen :: int
  ub_int64 :: int

record DialOptions =
  Link :: string
  Mode :: Mode
  Timeout :: int

text \<open>An assignment through the session pointer \<open>c\<close>, stored under its key.\<close>

definition put_session :: "session \<Rightarrow> tun \<Rightarrow> tun" where
  "put_session c t =
     t\<lparr>sessions := (sessions t)(session.channel c @ session.session c \<mapsto> c)\<rparr>"

text \<open>
  The loop of \<^verbatim>\<open>Dial\<close> over the links map: the variable \<^verbatim>\<open>links\<close> and the flag
  \<^verbatim>\<open>c.discovered\<close>.
\<close>

fun dial_scan ::
  "string \<Rightarrow> string \<Rightarrow> (string \<times> link) list \<Rightarrow> link list \<times> bool \<Rightarrow> link list \<times> bool" where
  "dial_scan i ch [] acc = acc"
| "dial_scan i ch ((node, l) # rest) (ls, found) =
     (if 0 < length i \<and> id_l l \<noteq> i then dial_scan i ch rest (ls, found)
      else if getChannel l ch \<noteq> 0 then dial_scan i ch rest (ls @ [l], True)
      else dial_scan i ch rest (ls, found))"

text \<open>\<^verbatim>\<open>link, ok := t.links[k]\<close> followed by \<^verbatim>\<open>link.setRTT(d)\<close> when \<^verbatim>\<open>ok\<close>.\<close>

definition rtt_link :: "int \<Rightarrow> int \<Rightarrow> string \<Rightarrow> tun \<Rightarrow> tun" where
  "rtt_link ub d k t =
     (case map_of (links t) k of None \<Rightarrow> t | Some l \<Rightarrow> store_link k (setRTT ub d l) t)"

text \<open>
  Modelled from the spec: \<^verbatim>\<open>session.Discover\<close> and \<^verbatim>\<open>session.Open\<close> are not part of
  these sources. Their result is taken from the environment; a successful discover pins
  the link of the announce and sets \<^verbatim>\<open>discovered\<close>, as the specification says.
  \<open>dial_open\<close> is \<^verbatim>\<open>Dial\<close> from the call of \<^verbatim>\<open>c.Open()\<close> on, \<open>dial_discover\<close> from the
  test of \<^verbatim>\<open>c.discovered\<close> on, \<open>dial_pick\<close> from the call of \<^verbatim>\<open>pickLink\<close> on.
\<close>

definition dial_open :: "dial_env \<Rightarrow> bool \<Rightarrow> session \<Rightarrow> tun \<Rightarrow> (error + session) \<times> tun" where
  "dial_open env measured c t =
     (case opened env of
        Some e \<Rightarrow> (Inl e, delSession (session.channel c) (session.session c) t)
      | None \<Rightarrow>
          (if \<not> measured \<and> session.mode c = Unicast
           then (Inr c, rtt_link (ub_int64 env) (sinceOpen env) (session.link c) t)
           else (Inr c, t)))"

definition dial_discover :: "dial_env \<Rightarrow> session \<Rightarrow> tun \<Rightarrow> (error + session) \<times> tun" where
  "dial_discover env c t =
     (if \<not> discovered c
      then (case discover env of
              Inl e \<Rightarrow> (Inl e, delSession (session.channel c) (session.session c) t)
            | Inr lk \<Rightarrow>
                (let c' = c\<lparr>discovered := True, session.link := lk\<rparr>;
                     t' = put_session c' t
                 in dial_open env (map_of (links t') lk \<noteq> None) c'
                      (rtt_link (ub_int64 env) (sinceDiscover env) lk t')))
      else dial_open env False c t)"

definition dial_pick :: "dial_env \<Rightarrow> link list \<Rightarrow> session \<Rightarrow> tun \<Rightarrow> (error + session) \<times> tun" where
  "dial_pick env ls c t =
     (if discovered c \<and> session.mode c = Unicast
      then (case pickLink (intn env) ls of
              None \<Rightarrow> (Inl (Panic ''invalid argument to Intn''), t)
            | Some l \<Rightarrow>
                (let c' = c\<lparr>session.link := id_l l\<rparr> in dial_discover env c' (put_session c' t)))
      else dial_discover env c t)"

definition Dial :: "dial_env \<Rightarrow> string \<Rightarrow> DialOptions \<Rightarrow> tun \<Rightarrow> (error + session) \<times> tun" where
  "Dial env ch options t =
     (case newSession ch (uuid env) t of
        (None, t0) \<Rightarrow> (Inl (ErrorNew (''error dialing '' @ ch)), t0)
      | (Some c0, t0) \<Rightarrow>
          (case dial_scan (Link options) ch (links t0) ([], False) of
             (ls, found) \<Rightarrow>
               (let c = c0\<lparr>session.remote := ch, local := ''local'', session.outbound := True,
                           session.mode := Mode options, timeout := Timeout options,
                           discovered := found\<rparr>;
                    t1 = put_session c t0
                in if length ls = 0 \<and> 0 < length (Link options)
                   then (Inl ErrLinkNotFound,
                         delSession (session.channel c) (session.session c) t1)
                   else dial_pick env ls c t1)))"

text \<open>\<^verbatim>\<open>Listen\<close>; \<open>md\<close> is \<^verbatim>\<open>options.Mode\<close>. The listener returned is given by its session.\<close>

definition Listen :: "string \<Rightarrow> Mode \<Rightarrow> tun \<Rightarrow> (error + session) \<times> tun" where
  "Listen ch md t =
     (case newSession ch ''listener'' t of
        (None, t0) \<Rightarrow> (Inl (ErrorNew (''already listening on '' @ ch)), t0)
      | (Some c0, t0) \<Rightarrow>
          (let c = c0\<lparr>session.remote := ''remote'', local := ch, session.mode := md\<rparr>
           in (Inr c, put_session c t0)))"

subsection \<open>The sessions map in the inbound demultiplexer\<close>

text \<open>
  The statements of \<^verbatim>\<open>listen\<close> that reach the sessions map or a session in it.
  \<open>listen_close\<close>: a \<^verbatim>\<open>close\<close> message for a channel and a session that is not the
  listener (\<open>loopb\<close> is the local variable \<^verbatim>\<open>loopback\<close>). \<open>listen_accept\<close>: an
  \<^verbatim>\<open>accept\<close> message. \<open>listen_deliver\<close>: the delivery to the session found under \<open>key\<close>,
  with the \<^verbatim>\<open>delete(t.sessions, channel)\<close> for a closed session; \<open>r\<close> is the
  \<^verbatim>\<open>Remote\<close> header.
\<close>

definition listen_close :: "bool \<Rightarrow> string \<Rightarrow> string \<Rightarrow> tun \<Rightarrow> tun" where
  "listen_close loopb ch sid t =
     (case getSession ch sid t of
        Some s \<Rightarrow> (if \<not> loopb \<and> session.mode s = Unicast then delSession ch sid t else t)
      | None \<Rightarrow> t)"

definition listen_accept :: "string \<Rightarrow> string \<Rightarrow> tun \<Rightarrow> tun" where
  "listen_accept ch sid t =
     (case getSession ch sid t of
        Some s \<Rightarrow>
          (if Unicast < session.mode s
           then t\<lparr>sessions := (sessions t)(ch @ sid \<mapsto> s\<lparr>accepted := True\<rparr>)\<rparr> else t)
      | None \<Rightarrow> t)"

definition listen_deliver :: "string \<Rightarrow> string \<Rightarrow> string \<Rightarrow> tun \<Rightarrow> tun" where
  "listen_deliver key ch r t =
     (case sessions t key of
        None \<Rightarrow> t
      | Some s \<Rightarrow>
          (if session.closed s then t\<lparr>sessions := (sessions t)(ch := None)\<rparr>
           else if wait s then t
           else t\<lparr>sessions := (sessions t)(key \<mapsto> s\<lparr>session.remote := r, wait := True\<rparr>)\<rparr>))"

text \<open>
  Modelled from the spec: \<^verbatim>\<open>session.Close\<close> is not part of these sources; it closes the
  session's local signals. \<open>session_Close\<close> is its effect on a session that is still in the
  map under \<open>key\<close>.
\<close>

definition session_Close :: "string \<Rightarrow> tun \<Rightarrow> tun" where
  "session_Close key t =
     (case sessions t key of
        None \<Rightarrow> t
      | Some s \<Rightarrow> t\<lparr>sessions := (sessions t)(key \<mapsto> s\<lparr>session.closed := True\<rparr>)\<rparr>)"

subsection \<open>Runs of the tunnel\<close>

text \<open>The operations on a tunnel, and the state after a sequence of them.\<close>

datatype op =
    NewSession string string
  | DelSession string string
  | DoDial dial_env string DialOptions
  | DoListen string Mode
  | DoConnect "error option" "string \<Rightarrow> link option"
  | DoClose "error option"
  | DoProcess "nat \<Rightarrow> send_event \<times> int" message
  | ListenClose bool string string
  | ListenAccept string string
  | ListenDeliver string string string
  | SessionClose string

fun apply_op :: "op \<Rightarrow> tun \<Rightarrow> tun" where
  "apply_op (NewSession ch sid) t = snd (newSession ch sid t)"
| "apply_op (DelSession ch sid) t = delSession ch sid t"
| "apply_op (DoDial env ch options) t = snd (Dial env ch options t)"
| "apply_op (DoListen ch md) t = snd (Listen ch md t)"
| "apply_op (DoConnect cerr setup) t = snd (Connect cerr setup t)"
| "apply_op (DoClose lerr) t = snd (Close_t lerr t)"
| "apply_op (DoProcess evs msg) t = s_tun (process evs msg t)"
| "apply_op (ListenClose loopb ch sid) t = listen_close loopb ch sid t"
| "apply_op (ListenAccept ch sid) t = listen_accept ch sid t"
| "apply_op (ListenDeliver key ch r) t = listen_deliver key ch r t"
| "apply_op (SessionClose key) t = session_Close key t"

fun run :: "op list \<Rightarrow> tun \<Rightarrow> tun" where
  "run [] t = t"
| "run (o1 # os) t = run os (apply_op o1 t)"

subsection \<open>The candidate links, in the words of the specification\<close>

text \<open>
  A link is a candidate for an envelope when it is connected, is not a loopback link if the
  envelope is outbound, is a loopback link if the envelope is marked loopback, and: for
  Multicast, has the envelope's channel in its channel map; otherwise, has the explicit link
  id of the envelope if there is one.
\<close>

definition candidate :: "message \<Rightarrow> link \<Rightarrow> bool" where
  "candidate msg l \<longleftrightarrow>
     link.connected l
     \<and> \<not> (link.loopback l \<and> message.outbound msg)
     \<and> \<not> (message.loopback msg \<and> \<not> link.loopback l)
     \<and> (if message.mode msg = Multicast then channels l (message.channel msg) \<noteq> None
        else message.link msg = [] \<or> id_l l = message.link msg)"

subsection \<open>Invariants and sample states\<close>

text \<open>
  \<open>keyed\<close>: every entry of the sessions map is stored under the key made from its own channel
  and session id. \<open>open_flags\<close>: a connected tunnel has an open close channel. \<open>new_key\<close>:
  the key that an operation passes to \<^verbatim>\<open>newSession\<close>, if it calls it.
\<close>

definition keyed :: "tun \<Rightarrow> bool" where
  "keyed t \<longleftrightarrow> (\<forall>k s. sessions t k = Some s \<longrightarrow> k = session.channel s @ session.session s)"

definition open_flags :: "tun \<Rightarrow> bool" where
  "open_flags t \<longleftrightarrow> (tun.connected t \<longrightarrow> \<not> tun.closed t)"

definition new_key :: "op \<Rightarrow> string option" where
  "new_key x = (case x of
       NewSession ch sid \<Rightarrow> Some (ch @ sid)
     | DoDial env ch options \<Rightarrow> Some (ch @ uuid env)
     | DoListen ch md \<Rightarrow> Some (ch @ ''listener'')
     | _ \<Rightarrow> None)"

text \<open>
  A connected tunnel with a listener on \<^verbatim>\<open>chat\<close> and one more session; a tunnel with one
  link that has no channel mapping; a tunnel that \<^verbatim>\<open>Connect\<close> has linked to its one node
  \<^verbatim>\<open>n1\<close>, the link having received no announce yet; an environment for \<^verbatim>\<open>Dial\<close>.
\<close>

definition ex_tun :: tun where
  "ex_tun = run [DoConnect None (\<lambda>n. None), DoListen ''chat'' 0, NewSession ''ab'' ''c'']
                (newTunnel [] ''t'' ''k'')"

definition ex_pinned :: tun where
  "ex_pinned = (newTunnel [] ''t'' ''k'')\<lparr>links := [(''n1'', newLink ''n1'' ''n1'' 0)]\<rparr>"

definition ex_linked :: tun where
  "ex_linked = run [DoConnect None (\<lambda>n. Some ((newLink n n 0)\<lparr>link.connected := True\<rparr>))]
                   (newTunnel [''n1''] ''t'' ''k'')"

definition ex_env :: dial_env where
  "ex_env = \<lparr>uuid = ''u1'', intn = 0, discover = Inl ErrDiscoverChan, opened = None,
             sinceDiscover = 1, sinceOpen = 1, ub_int64 = 0\<rparr>"

text \<open>
  A run of \<^verbatim>\<open>Recv\<close> calls, one scheduler choice each, up to the first call that blocks:
  the results in order.
\<close>

fun Recvs :: "bool list \<Rightarrow> link \<Rightarrow> (error + Message) list" where
  "Recvs [] l = []"
| "Recvs (v # vs) l = (case Recv v l of None \<Rightarrow> [] | Some (r, l') \<Rightarrow> r # Recvs vs l')"

text \<open>
  A message; a link that has been closed; an open, connected link with one queued packet, a
  round trip time of 1 ns and a rate of 1 bit/s; a tunnel with three links, of which the
  first two are connected and the first hosts the channel \<^verbatim>\<open>chat\<close>; a unicast envelope;
  sends of which the first fails.
\<close>

definition ex_msg :: Message where
  "ex_msg = \<lparr>Header = [(''k'', ''vv'')], Body = [7]\<rparr>"

definition ex_closed :: link where
  "ex_closed = snd (Close ((newLink ''a'' ''a'' 0)\<lparr>link.connected := True\<rparr>))"

definition ex_good :: link where
  "ex_good = (newLink ''b'' ''b'' 0)\<lparr>link.connected := True, length_l := 1, rate := Finite 1,
                sendQueue := [\<lparr>message = ex_msg, err = None\<rparr>]\<rparr>"

definition ex_net :: tun where
  "ex_net = (newTunnel [] ''t'' ''k'')\<lparr>links :=
      [(''n1'', (newLink ''n1'' ''n1'' 0)\<lparr>link.connected := True, channels := [''chat'' \<mapsto> 9]\<rparr>),
       (''n2'', (newLink ''n2'' ''n2'' 0)\<lparr>link.connected := True\<rparr>),
       (''n3'', newLink ''n3'' ''n3'' 0)]\<rparr>"

definition ex_uni :: message where
  "ex_uni = \<lparr>typ_m = ''session'', message.tunnel = ''t'', message.channel = ''chat'',
             message.session = ''s1'', message.mode = Unicast, message.outbound = True,
             message.loopback = False, message.link = [], data = Some ex_msg,
             errChan = Some []\<rparr>"

definition ex_evs :: "nat \<Rightarrow> send_event \<times> int" where
  "ex_evs i = (if i = 0 then (Status (Some (ErrorNew ''broken pipe'')), 5) else (Status None, 5))"

text \<open>
  The rate sample in the words of the specification, as a real number: the bits, 1024 times
  the length of the body plus the lengths of the header keys and values, divided by the
  elapsed time in seconds. \<open>ex_idle\<close> is a connected link that has sent nothing yet.
\<close>

definition sample_bps :: "Message \<Rightarrow> int \<Rightarrow> real" where
  "sample_bps m delta =
     real_of_int (1024 * (int (length (Body m))
        + sum_list (map (\<lambda>(k, v). int (length k) + int (length v)) (Header m))))
     / (real_of_int delta / 1000000000)"

definition ex_idle :: link where
  "ex_idle = (newLink ''c'' ''c'' 0)\<lparr>link.connected := True\<rparr>"

text \<open>
  A link whose receive goroutine has queued a failed receive (the socket returned \<^verbatim>\<open>io.EOF\<close>)
  and then a message, and which has then been closed.
\<close>

definition ex_served :: link where
  "ex_served =
     snd (Close (pump_link (recv_round False ex_msg None
       (pump_link (recv_round False \<lparr>Header = [], Body = []\<rparr> (Some EOF) ex_idle)))))"

section \<open>Properties\<close>

text \<open>The definitions that evaluate the sample tunnel.\<close>

lemmas ex_defs = ex_tun_def newTunnel_def Connect_def Listen_def newSession_def put_session_def
  Close_t_def close_t_def getSession_def Let_def

subsection \<open>What the operations leave unchanged\<close>

lemma store_link_frame [simp]:
  "sessions (store_link n l t) = sessions t" "tun.connected (store_link n l t) = tun.connected t"
  "tun.closed (store_link n l t) = tun.closed t"
  by (simp_all add: store_link_def)

lemma delLink_frame [simp]:
  "sessions (delLink r t) = sessions t" "tun.connected (delLink r t) = tun.connected t"
  "tun.closed (delLink r t) = tun.closed t"
  by (simp_all add: delLink_def)

lemma rtt_link_frame [simp]:
  "sessions (rtt_link ub d k t) = sessions t" "tun.connected (rtt_link ub d k t) = tun.connected t"
  "tun.closed (rtt_link ub d k t) = tun.closed t"
  by (simp_all add: rtt_link_def split: option.splits)

lemma delSession_frame [simp]:
  "tun.connected (delSession ch sid t) = tun.connected t"
  "tun.closed (delSession ch sid t) = tun.closed t"
  by (simp_all add: delSession_def)

lemma put_session_frame [simp]:
  "tun.connected (put_session c t) = tun.connected t"
  "tun.closed (put_session c t) = tun.closed t"
  by (simp_all add: put_session_def)

lemma newSession_frame [simp]:
  "tun.connected (snd (newSession ch sid t)) = tun.connected t"
  "tun.closed (snd (newSession ch sid t)) = tun.closed t"
  by (simp_all add: newSession_def Let_def split: option.splits)

lemma setupLinks_frame [simp]:
  "tun.connected (setupLinks f ns t) = tun.connected t"
  "tun.closed (setupLinks f ns t) = tun.closed t"
  "sessions (setupLinks f ns t) = sessions t"
  by (induction f ns t rule: setupLinks.induct) (auto split: option.splits)

lemma send_loop_frame:
  "sessions (s_tun (send_loop md m evs i cs st)) = sessions (s_tun st)
   \<and> tun.connected (s_tun (send_loop md m evs i cs st)) = tun.connected (s_tun st)
   \<and> tun.closed (s_tun (send_loop md m evs i cs st)) = tun.closed (s_tun st)"
proof (induction md m evs i cs st rule: send_loop.induct)
  case (1 md newMsg evs i st)
  then show ?case by simp
next
  case (2 md newMsg evs i node l rest st)
  show ?case
  proof (cases "Send (fst (evs i)) (snd (evs i)) newMsg l")
    case (Pair r l')
    show ?thesis
    proof (cases r)
      case None
      with Pair 2(1) [OF Pair [symmetric]] show ?thesis by (simp add: Let_def)
    next
      case (Some e)
      with Pair 2(2) [OF Pair [symmetric]] show ?thesis by simp
    qed
  qed
qed

lemma process_frame [simp]:
  "sessions (s_tun (process evs msg t)) = sessions t"
  "tun.connected (s_tun (process evs msg t)) = tun.connected t"
  "tun.closed (s_tun (process evs msg t)) = tun.closed t"
  by (simp_all add: process_def send_loop_frame split: prod.splits)

lemma dial_open_flags [simp]:
  "tun.connected (snd (dial_open env me c t)) = tun.connected t"
  "tun.closed (snd (dial_open env me c t)) = tun.closed t"
  by (simp_all add: dial_open_def split: option.splits)

lemma dial_discover_flags [simp]:
  "tun.connected (snd (dial_discover env c t)) = tun.connected t"
  "tun.closed (snd (dial_discover env c t)) = tun.closed t"
  by (simp_all add: dial_discover_def Let_def split: sum.splits)

lemma dial_pick_flags [simp]:
  "tun.connected (snd (dial_pick env ls c t)) = tun.connected t"
  "tun.closed (snd (dial_pick env ls c t)) = tun.closed t"
  by (simp_all add: dial_pick_def Let_def split: option.splits)

lemma Dial_flags [simp]:
  "tun.connected (snd (Dial env ch options t)) = tun.connected t"
  "tun.closed (snd (Dial env ch options t)) = tun.closed t"
  by (simp_all add: Dial_def Let_def newSession_def split: option.splits prod.splits)

lemma Listen_flags [simp]:
  "tun.connected (snd (Listen ch md t)) = tun.connected t"
  "tun.closed (snd (Listen ch md t)) = tun.closed t"
  by (simp_all add: Listen_def Let_def newSession_def split: option.splits prod.splits)

lemma listen_flags [simp]:
  "tun.connected (listen_close b ch sid t) = tun.connected t"
  "tun.closed (listen_close b ch sid t) = tun.closed t"
  "tun.connected (listen_accept ch sid t) = tun.connected t"
  "tun.closed (listen_accept ch sid t) = tun.closed t"
  "tun.connected (listen_deliver k ch r t) = tun.connected t"
  "tun.closed (listen_deliver k ch r t) = tun.closed t"
  "tun.connected (session_Close k t) = tun.connected t"
  "tun.closed (session_Close k t) = tun.closed t"
  by (simp_all add: listen_close_def listen_accept_def listen_deliver_def session_Close_def
        split: option.splits)

lemma open_flags_apply: "open_flags t \<Longrightarrow> open_flags (apply_op x t)"
  by (cases x) (auto simp: open_flags_def Connect_def Close_t_def close_t_def split: option.splits)

lemma open_flags_run: "open_flags t \<Longrightarrow> open_flags (run ops t)"
  by (induction ops arbitrary: t) (simp_all add: open_flags_apply)

lemma open_flags_newTunnel: "open_flags (newTunnel nds i tok)"
  by (simp add: open_flags_def newTunnel_def)

subsection \<open>Send and Recv on a closed link\<close>

lemma setRate_frame [simp]:
  "errCount (setRate b d l) = errCount l" "link.closed (setRate b d l) = link.closed l"
  "recvQueue (setRate b d l) = recvQueue l"
  by (simp_all add: setRate_def Let_def)

lemma Send_closed: "link.closed l \<Longrightarrow> Send ev delta m l = (Some EOF, l)"
  by (simp add: Send_def)

lemma Send_keeps_closed: "link.closed l \<Longrightarrow> link.closed (snd (Send ev delta m l))"
  by (simp add: Send_def)

lemma Recv_closed:
  "link.closed l \<Longrightarrow> Recv v l =
     (case recvQueue l of [] \<Rightarrow> Some (Inl EOF, l) | pk # q \<Rightarrow> Some (serve pk, l\<lparr>recvQueue := q\<rparr>))"
  by (simp add: Recv_def split: list.splits)

lemma Recvs_closed:
  "link.closed l \<Longrightarrow> length vs = Suc (length (recvQueue l)) \<Longrightarrow>
     Recvs vs l = map serve (recvQueue l) @ [Inl EOF]"
proof (induction vs arbitrary: l)
  case Nil
  then show ?case by simp
next
  case (Cons v vs)
  show ?case
  proof (cases "recvQueue l")
    case Nil
    with Cons.prems show ?thesis by (simp add: Recv_closed)
  next
    case (Cons pk q)
    have "Recvs vs (l\<lparr>recvQueue := q\<rparr>) = map serve (recvQueue (l\<lparr>recvQueue := q\<rparr>)) @ [Inl EOF]"
      using Cons.prems Cons by (intro Cons.IH) simp_all
    with Cons.prems Cons show ?thesis by (simp add: Recv_closed)
  qed
qed


lemma serve_cases: "serve pk = (case err pk of None \<Rightarrow> Inr (message pk) | Some e \<Rightarrow> Inl e)"
  by (simp add: serve_def split: option.splits)

lemma map_serve_ok: "\<forall>pk \<in> set q. err pk = None \<Longrightarrow> map serve q = map (\<lambda>pk. Inr (message pk)) q"
  by (induction q) (simp_all add: serve_def)

lemma Recv_closed_EOF:
  "link.closed l \<Longrightarrow>
     (map_option fst (Recv v l) = Some (Inl EOF)) =
       (recvQueue l = [] \<or> err (hd (recvQueue l)) = Some EOF)"
  by (cases "recvQueue l") (auto simp: Recv_closed serve_def split: option.splits)

lemma ex_served_val:
  "ex_served = ex_idle\<lparr>socketCloses := 1, link.closed := True, errCount := 1,
       recvQueue := [\<lparr>message = \<lparr>Header = [], Body = []\<rparr>, err = Some EOF\<rparr>,
                     \<lparr>message = ex_msg, err = None\<rparr>]\<rparr>"
  by (simp add: ex_served_def recv_round_def Let_def Close_def ex_idle_def newLink_def ex_msg_def)

text \<open>
  Claim C8, as amended. \<^verbatim>\<open>Send\<close> returns \<^verbatim>\<open>EOF\<close> when the link is closed, whether the closure is seen
  before queuing, while queuing or while waiting for the status. \<^verbatim>\<open>Recv\<close> on a closed link
  serves the packet at the head of the receive queue whatever the scheduler chooses: its
  message, or the receive error recorded with it. It returns \<^verbatim>\<open>EOF\<close> exactly when the queue is
  empty or the packet at the head carries the receive error \<^verbatim>\<open>EOF\<close>. As many calls as there are
  buffered packets serve them in order, and the next one returns \<^verbatim>\<open>EOF\<close>; when no buffered
  packet carries an error, these calls return the buffered messages and \<^verbatim>\<open>EOF\<close> comes only
  after the last of them.
\<close>

theorem closed_link_EOF:
  "(link.closed l \<longrightarrow> fst (Send ev delta m l) = Some EOF)
   \<and> fst (Send ClosedQueuing delta m l) = Some EOF
   \<and> fst (Send (ClosedWaiting taken) delta m l) = Some EOF
   \<and> (link.closed l \<longrightarrow>
        Recv v l = (case recvQueue l of
                      [] \<Rightarrow> Some (Inl EOF, l)
                    | pk # q \<Rightarrow>
                        Some (case err pk of None \<Rightarrow> Inr (message pk) | Some e \<Rightarrow> Inl e,
                              l\<lparr>recvQueue := q\<rparr>)))
   \<and> (link.closed l \<longrightarrow>
        (map_option fst (Recv v l) = Some (Inl EOF)) =
          (recvQueue l = [] \<or> err (hd (recvQueue l)) = Some EOF))
   \<and> (link.closed l \<and> length vs = Suc (length (recvQueue l)) \<longrightarrow>
        Recvs vs l =
          map (\<lambda>pk. case err pk of None \<Rightarrow> Inr (message pk) | Some e \<Rightarrow> Inl e) (recvQueue l)
          @ [Inl EOF])
   \<and> (link.closed l \<and> length vs = Suc (length (recvQueue l))
        \<and> (\<forall>pk \<in> set (recvQueue l). err pk = None) \<longrightarrow>
        Recvs vs l = map (\<lambda>pk. Inr (message pk)) (recvQueue l) @ [Inl EOF])"
proof -
  have s: "serve = (\<lambda>pk. case err pk of None \<Rightarrow> Inr (message pk) | Some e \<Rightarrow> Inl e)"
    by (intro ext) (rule serve_cases)
  have 1: "link.closed l \<longrightarrow> fst (Send ev delta m l) = Some EOF" by (simp add: Send_closed)
  have 2: "fst (Send ClosedQueuing delta m l) = Some EOF" by (simp add: Send_def)
  have 3: "fst (Send (ClosedWaiting taken) delta m l) = Some EOF" by (simp add: Send_def)
  have 4: "link.closed l \<longrightarrow>
        Recv v l = (case recvQueue l of
                      [] \<Rightarrow> Some (Inl EOF, l)
                    | pk # q \<Rightarrow>
                        Some (case err pk of None \<Rightarrow> Inr (message pk) | Some e \<Rightarrow> Inl e,
                              l\<lparr>recvQueue := q\<rparr>))"
    by (simp add: Recv_closed serve_cases split: list.splits)
  have 5: "link.closed l \<longrightarrow>
        (map_option fst (Recv v l) = Some (Inl EOF)) =
          (recvQueue l = [] \<or> err (hd (recvQueue l)) = Some EOF)"
    using Recv_closed_EOF [of l v] by blast
  have 6: "link.closed l \<and> length vs = Suc (length (recvQueue l)) \<longrightarrow>
        Recvs vs l =
          map (\<lambda>pk. case err pk of None \<Rightarrow> Inr (message pk) | Some e \<Rightarrow> Inl e) (recvQueue l)
          @ [Inl EOF]"
    using Recvs_closed [of l vs] by (simp add: s)
  have 7: "link.closed l \<and> length vs = Suc (length (recvQueue l))
        \<and> (\<forall>pk \<in> set (recvQueue l). err pk = None) \<longrightarrow>
        Recvs vs l = map (\<lambda>pk. Inr (message pk)) (recvQueue l) @ [Inl EOF]"
    using Recvs_closed [of l vs] map_serve_ok [of "recvQueue l"] by simp
  from 1 2 3 4 5 6 7 show ?thesis by blast
qed

theorem closed_link_EOF_witness:
  "link.closed (ex_closed\<lparr>recvQueue := [\<lparr>message = ex_msg, err = None\<rparr>]\<rparr>)
   \<and> fst (Send (Status None) 5 ex_msg (ex_closed\<lparr>recvQueue := [\<lparr>message = ex_msg, err = None\<rparr>]\<rparr>))
       = Some EOF
   \<and> map_option fst (Recv True (ex_closed\<lparr>recvQueue := [\<lparr>message = ex_msg, err = None\<rparr>]\<rparr>))
       = Some (Inr ex_msg)
   \<and> Recvs [False, True] (ex_closed\<lparr>recvQueue := [\<lparr>message = ex_msg, err = None\<rparr>]\<rparr>)
       = [Inr ex_msg, Inl EOF]"
proof -
  let ?l = "ex_closed\<lparr>recvQueue := [\<lparr>message = ex_msg, err = None\<rparr>]\<rparr>"
  have c: "link.closed ?l" by (simp add: ex_closed_def Close_def newLink_def)
  have q: "length [False, True] = Suc (length (recvQueue ?l))" by simp
  have n: "\<forall>pk \<in> set (recvQueue ?l). err pk = None" by simp
  note t = closed_link_EOF [of ?l "Status None" 5 ex_msg _ True "[False, True]"]
  have s: "fst (Send (Status None) 5 ex_msg ?l) = Some EOF"
    using t c by blast
  have "Recv True ?l = (case recvQueue ?l of
                      [] \<Rightarrow> Some (Inl EOF, ?l)
                    | pk # q \<Rightarrow>
                        Some (case err pk of None \<Rightarrow> Inr (message pk) | Some e \<Rightarrow> Inl e,
                              ?l\<lparr>recvQueue := q\<rparr>))"
    using t c by blast
  then have e: "map_option fst (Recv True ?l) = Some (Inr ex_msg)" by simp
  have r: "Recvs [False, True] ?l = map (\<lambda>pk. Inr (message pk)) (recvQueue ?l) @ [Inl EOF]"
    using t c q n by blast
  have r2: "map (\<lambda>pk. Inr (message pk)) (recvQueue ?l) @ [Inl EOF] = [Inr ex_msg, Inl EOF]"
    by simp
  show ?thesis
    by (intro conjI) (rule c, rule s, rule e, simp only: r r2)
qed

text \<open>
  The claim as first stated fails: the closed link \<open>ex_served\<close> has two packets buffered, the
  first being the failed receive \<^verbatim>\<open>io.EOF\<close> that the receive goroutine queued. \<^verbatim>\<open>Recv\<close>
  returns \<^verbatim>\<open>EOF\<close> under either choice of the scheduler while the second packet is still in
  the queue, and the next call serves that packet's message.
\<close>

theorem closed_link_EOF_counterexample:
  "link.closed ex_served
   \<and> length (recvQueue ex_served) = 2
   \<and> map_option fst (Recv True ex_served) = Some (Inl EOF)
   \<and> map_option fst (Recv False ex_served) = Some (Inl EOF)
   \<and> map_option (recvQueue \<circ> snd) (Recv True ex_served) = Some [\<lparr>message = ex_msg, err = None\<rparr>]
   \<and> Recvs [True, True, True] ex_served = [Inl EOF, Inr ex_msg, Inl EOF]"
  by (simp add: ex_served_val Recv_def serve_def ex_idle_def newLink_def)

subsection \<open>The state of a link\<close>

text \<open>
  Claim C5, as amended. \<^verbatim>\<open>State\<close> returns \<^verbatim>\<open>closed\<close> after \<^verbatim>\<open>Close\<close> and on every closed
  link, also after a later \<^verbatim>\<open>Send\<close>; it returns \<^verbatim>\<open>error\<close> exactly when the link is not
  closed and the error count exceeds 3, and \<^verbatim>\<open>connected\<close> exactly when the link is not closed
  and the count does not exceed 3. On an open link a \<^verbatim>\<open>Send\<close> whose transport write succeeds
  resets the count to 0, and one whose transport write fails adds 1 and returns that error;
  a failed receive of the receive goroutine adds 1 and a successful one leaves the count.
  A \<^verbatim>\<open>Send\<close> that returns \<^verbatim>\<open>EOF\<close> because the link is closed leaves the count as it is,
  at each of its three returns: on a link closed before the call (where nothing changes at
  all), on a closure seen while queuing, and on a closure seen while waiting for the status.
  The last conjunct gives the count after every \<^verbatim>\<open>Send\<close>.
\<close>

theorem State_errCount:
  "State (snd (Close l)) = ''closed''
   \<and> (link.closed l \<longrightarrow> State l = ''closed'' \<and> State (snd (Send ev delta m l)) = ''closed'')
   \<and> (State l = ''error'') = (\<not> link.closed l \<and> 3 <s errCount l)
   \<and> (State l = ''connected'') = (\<not> link.closed l \<and> \<not> 3 <s errCount l)
   \<and> (\<not> link.closed l \<longrightarrow>
        fst (Send (Status None) delta m l) = None
        \<and> errCount (snd (Send (Status None) delta m l)) = 0)
   \<and> (\<not> link.closed l \<longrightarrow>
        fst (Send (Status (Some e)) delta m l) = Some e
        \<and> errCount (snd (Send (Status (Some e)) delta m l)) = errCount l + 1)
   \<and> errCount (pump_link (recv_round v m (Some e) l)) = errCount l + 1
   \<and> errCount (pump_link (recv_round v m None l)) = errCount l
   \<and> (link.closed l \<longrightarrow> Send ev delta m l = (Some EOF, l))
   \<and> fst (Send ClosedQueuing delta m l) = Some EOF
   \<and> errCount (snd (Send ClosedQueuing delta m l)) = errCount l
   \<and> fst (Send (ClosedWaiting taken) delta m l) = Some EOF
   \<and> errCount (snd (Send (ClosedWaiting taken) delta m l)) = errCount l
   \<and> errCount (snd (Send ev delta m l)) =
       (if link.closed l then errCount l
        else case ev of Status None \<Rightarrow> 0 | Status (Some e') \<Rightarrow> errCount l + 1
             | ClosedQueuing \<Rightarrow> errCount l | ClosedWaiting b \<Rightarrow> errCount l)"
proof -
  have 1: "State (snd (Close l)) = ''closed''" by (simp add: State_def Close_def)
  have 2: "link.closed l \<longrightarrow> State l = ''closed'' \<and> State (snd (Send ev delta m l)) = ''closed''"
    by (simp add: State_def Send_closed)
  have 3: "(State l = ''error'') = (\<not> link.closed l \<and> 3 <s errCount l)" by (simp add: State_def)
  have 4: "(State l = ''connected'') = (\<not> link.closed l \<and> \<not> 3 <s errCount l)"
    by (simp add: State_def)
  have 5: "\<not> link.closed l \<longrightarrow>
        fst (Send (Status None) delta m l) = None
        \<and> errCount (snd (Send (Status None) delta m l)) = 0"
    by (simp add: Send_def Let_def)
  have 6: "\<not> link.closed l \<longrightarrow>
        fst (Send (Status (Some e)) delta m l) = Some e
        \<and> errCount (snd (Send (Status (Some e)) delta m l)) = errCount l + 1"
    by (simp add: Send_def)
  have 7: "errCount (pump_link (recv_round v m (Some e) l)) = errCount l + 1"
    by (simp add: recv_round_def Let_def)
  have 8: "errCount (pump_link (recv_round v m None l)) = errCount l"
    by (simp add: recv_round_def Let_def)
  have 9: "link.closed l \<longrightarrow> Send ev delta m l = (Some EOF, l)" by (simp add: Send_closed)
  have 10: "fst (Send ClosedQueuing delta m l) = Some EOF"
    "errCount (snd (Send ClosedQueuing delta m l)) = errCount l"
    by (simp_all add: Send_def Close_def)
  have 11: "fst (Send (ClosedWaiting taken) delta m l) = Some EOF"
    "errCount (snd (Send (ClosedWaiting taken) delta m l)) = errCount l"
    by (simp_all add: Send_def Close_def)
  have 12: "errCount (snd (Send ev delta m l)) =
       (if link.closed l then errCount l
        else case ev of Status None \<Rightarrow> 0 | Status (Some e') \<Rightarrow> errCount l + 1
             | ClosedQueuing \<Rightarrow> errCount l | ClosedWaiting b \<Rightarrow> errCount l)"
    by (simp add: Send_def Close_def Let_def split: send_event.splits option.splits)
  from 1 2 3 4 5 6 7 8 9 10 11 12 show ?thesis by blast
qed

theorem State_errCount_witness:
  "\<not> link.closed ex_good \<and> link.closed ex_closed
   \<and> State ex_closed = ''closed''
   \<and> State (ex_good\<lparr>errCount := 4\<rparr>) = ''error''
   \<and> State (ex_good\<lparr>errCount := 3\<rparr>) = ''connected''
   \<and> errCount (snd (Send (Status None) 5 ex_msg (ex_good\<lparr>errCount := 4\<rparr>))) = 0
   \<and> errCount (snd (Send (Status (Some (ErrorNew ''broken pipe''))) 5 ex_msg ex_good)) = 1
   \<and> Send (Status None) 5 ex_msg ex_closed = (Some EOF, ex_closed)
   \<and> fst (Send ClosedQueuing 5 ex_msg (ex_good\<lparr>errCount := 3\<rparr>)) = Some EOF
   \<and> errCount (snd (Send ClosedQueuing 5 ex_msg (ex_good\<lparr>errCount := 3\<rparr>))) = 3
   \<and> errCount (snd (Send (ClosedWaiting True) 5 ex_msg (ex_good\<lparr>errCount := 3\<rparr>))) = 3"
proof -
  have a: "\<not> link.closed ex_good" "\<not> link.closed (ex_good\<lparr>errCount := 4\<rparr>)"
    "\<not> link.closed (ex_good\<lparr>errCount := 3\<rparr>)"
    by (simp_all add: ex_good_def newLink_def)
  have b: "link.closed ex_closed" by (simp add: ex_closed_def Close_def newLink_def)
  have c: "errCount ex_good = 0" by (simp add: ex_good_def newLink_def)
  from State_errCount [of ex_closed "Status None" 5 ex_msg]
    State_errCount [of "ex_good\<lparr>errCount := 4\<rparr>" _ 5 ex_msg]
    State_errCount [of "ex_good\<lparr>errCount := 3\<rparr>" _ 5 ex_msg _ _ True]
    State_errCount [of ex_good _ 5 ex_msg "ErrorNew ''broken pipe''"] a b c
  show ?thesis by simp
qed

text \<open>
  The claim as first stated fails for a send that is refused: on a closed link \<^verbatim>\<open>Send\<close>
  returns the error \<^verbatim>\<open>EOF\<close> and the error count is not incremented; the same holds on an
  open link that is closed while \<^verbatim>\<open>Send\<close> is queuing the packet.
\<close>

theorem State_errCount_counterexample:
  "fst (Send (Status None) 5 ex_msg ex_closed) = Some EOF
   \<and> errCount (snd (Send (Status None) 5 ex_msg ex_closed)) = errCount ex_closed
   \<and> fst (Send ClosedQueuing 5 ex_msg ex_good) = Some EOF
   \<and> errCount (snd (Send ClosedQueuing 5 ex_msg ex_good)) = errCount ex_good"
  by (simp add: Send_def ex_closed_def ex_good_def Close_def newLink_def)
subsection \<open>The outbound multiplexer\<close>

lemma build_sendTo_filter:
  "snd (build_sendTo msg ls (er, acc)) = acc @ filter (\<lambda>(n, l). candidate msg l) ls"
proof (induction ls arbitrary: er acc)
  case Nil
  then show ?case by simp
next
  case (Cons x ls)
  obtain n l where x: "x = (n, l)" by (cases x)
  show ?case unfolding x by (simp add: Cons.IH candidate_def)
qed

lemma map_fst_close:
  "map fst (map (\<lambda>(n, k). (n, if id_l k = r then snd (Close k) else k)) rest) = map fst rest"
  "map (fst \<circ> (\<lambda>(n, k). (n, if id_l k = r then snd (Close k) else k))) rest = map fst rest"
  by (induction rest) auto

lemma send_loop_all:
  "Unicast < md \<Longrightarrow>
     map fst (attempted (send_loop md m evs i cs st)) = map fst (attempted st) @ map fst cs"
proof (induction md m evs i cs st rule: send_loop.induct)
  case (1 md newMsg evs i st)
  then show ?case by simp
next
  case (2 md newMsg evs i node l rest st)
  show ?case
  proof (cases "Send (fst (evs i)) (snd (evs i)) newMsg l")
    case (Pair r l')
    show ?thesis
    proof (cases r)
      case None
      with Pair 2(1) [OF Pair [symmetric]] 2(3) show ?thesis by (simp add: Let_def)
    next
      case (Some e)
      with Pair 2(2) [OF Pair [symmetric]] 2(3) show ?thesis by (simp add: map_fst_close)
    qed
  qed
qed

lemma send_loop_unicast:
  "\<not> Unicast < md \<Longrightarrow>
     \<exists>new. attempted (send_loop md m evs i cs st) = attempted st @ new
       \<and> map fst new = take (length new) (map fst cs)
       \<and> (\<forall>x \<in> set (butlast new). snd x \<noteq> None)
       \<and> (sent (send_loop md m evs i cs st) = (sent st \<or> (new \<noteq> [] \<and> snd (last new) = None)))
       \<and> (new = [] \<or> snd (last new) \<noteq> None \<longrightarrow> length new = length cs)"
proof (induction md m evs i cs st rule: send_loop.induct)
  case (1 md newMsg evs i st)
  then show ?case by simp
next
  case (2 md newMsg evs i node l rest st)
  show ?case
  proof (cases "Send (fst (evs i)) (snd (evs i)) newMsg l")
    case (Pair r l')
    show ?thesis
    proof (cases r)
      case None
      have "send_loop md newMsg evs i ((node, l) # rest) st =
              st\<lparr>s_tun := store_link node l' (s_tun st), sent := True,
                 attempted := attempted st @ [(node, None)]\<rparr>"
        using Pair None 2(3) by (simp add: Let_def)
      then show ?thesis by (intro exI [of _ "[(node, None)]"]) simp
    next
      case (Some e)
      let ?rest = "map (\<lambda>(n, k). (n, if id_l k = link.remote l' then snd (Close k) else k)) rest"
      let ?st = "st\<lparr>s_tun := delLink (link.remote l') (store_link node l' (s_tun st)),
                    s_err := Some (ErrorNew (Error e)),
                    attempted := attempted st @ [(node, Some e)]\<rparr>"
      have eq: "send_loop md newMsg evs i ((node, l) # rest) st = send_loop md newMsg evs (Suc i) ?rest ?st"
        using Pair Some by simp
      from 2(2) [OF Pair [symmetric] Some 2(3)]
      obtain new where n:
        "attempted (send_loop md newMsg evs (Suc i) ?rest ?st) = attempted ?st @ new"
        "map fst new = take (length new) (map fst ?rest)"
        "\<forall>x \<in> set (butlast new). snd x \<noteq> None"
        "sent (send_loop md newMsg evs (Suc i) ?rest ?st) = (sent ?st \<or> (new \<noteq> [] \<and> snd (last new) = None))"
        "new = [] \<or> snd (last new) \<noteq> None \<longrightarrow> length new = length ?rest"
        by blast
      show ?thesis
      proof (intro exI [of _ "(node, Some e) # new"] conjI)
        show "attempted (send_loop md newMsg evs i ((node, l) # rest) st) = attempted st @ (node, Some e) # new"
          using eq n(1) by simp
        show "map fst ((node, Some e) # new) = take (length ((node, Some e) # new)) (map fst ((node, l) # rest))"
          using n(2) by (simp add: map_fst_close)
        show "\<forall>x \<in> set (butlast ((node, Some e) # new)). snd x \<noteq> None"
          using n(3) by (cases new) auto
        show "sent (send_loop md newMsg evs i ((node, l) # rest) st) =
                (sent st \<or> ((node, Some e) # new \<noteq> [] \<and> snd (last ((node, Some e) # new)) = None))"
          using eq n(4) by (cases new) auto
        show "(node, Some e) # new = [] \<or> snd (last ((node, Some e) # new)) \<noteq> None \<longrightarrow>
                length ((node, Some e) # new) = length ((node, l) # rest)"
          using n(5) by (cases new) auto
      qed
    qed
  qed
qed

text \<open>
  Claim C3. The list \<^verbatim>\<open>sendTo\<close> built by \<^verbatim>\<open>process\<close> is the links map filtered by the
  candidate condition of the specification, in map order. The links on which \<^verbatim>\<open>link.Send\<close> is
  called are a prefix of the candidates; for Multicast and Broadcast they are all the
  candidates; for Unicast every attempt before the last failed, the message counts as sent
  exactly when the last attempt succeeded, and when nothing was sent every candidate was
  attempted.
\<close>

theorem process_candidates:
  "snd (build_sendTo msg (links t) (None, [])) = filter (\<lambda>(n, l). candidate msg l) (links t)
   \<and> map fst (attempted (process evs msg t))
       = take (length (attempted (process evs msg t)))
           (map fst (filter (\<lambda>(n, l). candidate msg l) (links t)))
   \<and> (message.mode msg = Multicast \<or> message.mode msg = Broadcast \<longrightarrow>
        map fst (attempted (process evs msg t))
          = map fst (filter (\<lambda>(n, l). candidate msg l) (links t)))
   \<and> (message.mode msg = Unicast \<longrightarrow>
        (\<forall>x \<in> set (butlast (attempted (process evs msg t))). snd x \<noteq> None)
        \<and> (sent (process evs msg t) =
             (attempted (process evs msg t) \<noteq> [] \<and> snd (last (attempted (process evs msg t))) = None))
        \<and> (\<not> sent (process evs msg t) \<longrightarrow>
             length (attempted (process evs msg t))
               = length (filter (\<lambda>(n, l). candidate msg l) (links t))))"
proof -
  let ?cs = "filter (\<lambda>(n, l). candidate msg l) (links t)"
  obtain er sendTo where b: "build_sendTo msg (links t) (None, []) = (er, sendTo)"
    by (cases "build_sendTo msg (links t) (None, [])")
  have s: "sendTo = ?cs" using build_sendTo_filter [of msg "links t" None "[]"] b by simp
  let ?st = "\<lparr>s_tun = t, sent = False, s_err = er, attempted = []\<rparr>"
  have p: "process evs msg t = send_loop (message.mode msg) (newMessage msg) evs 0 ?cs ?st"
    using b s by (simp add: process_def)
  have 1: "snd (build_sendTo msg (links t) (None, [])) = ?cs" using b s by simp
  have 3: "message.mode msg = Multicast \<or> message.mode msg = Broadcast \<longrightarrow>
        map fst (attempted (process evs msg t)) = map fst ?cs"
  proof
    assume "message.mode msg = Multicast \<or> message.mode msg = Broadcast"
    then have "Unicast < message.mode msg" by (auto simp: Unicast_def Multicast_def Broadcast_def)
    from send_loop_all [OF this, of "newMessage msg" evs 0 ?cs ?st] p
    show "map fst (attempted (process evs msg t)) = map fst ?cs" by simp
  qed
  have u: "\<not> Unicast < message.mode msg \<Longrightarrow>
     map fst (attempted (process evs msg t)) = take (length (attempted (process evs msg t))) (map fst ?cs)
     \<and> (\<forall>x \<in> set (butlast (attempted (process evs msg t))). snd x \<noteq> None)
     \<and> (sent (process evs msg t) =
             (attempted (process evs msg t) \<noteq> [] \<and> snd (last (attempted (process evs msg t))) = None))
     \<and> (\<not> sent (process evs msg t) \<longrightarrow> length (attempted (process evs msg t)) = length ?cs)"
  proof -
    assume "\<not> Unicast < message.mode msg"
    from send_loop_unicast [OF this, of "newMessage msg" evs 0 ?cs ?st] p
    obtain new where n: "attempted (process evs msg t) = new"
      "map fst new = take (length new) (map fst ?cs)"
      "\<forall>x \<in> set (butlast new). snd x \<noteq> None"
      "sent (process evs msg t) = (new \<noteq> [] \<and> snd (last new) = None)"
      "new = [] \<or> snd (last new) \<noteq> None \<longrightarrow> length new = length ?cs"
      by auto
    then show ?thesis by auto
  qed
  have 2: "map fst (attempted (process evs msg t))
       = take (length (attempted (process evs msg t))) (map fst ?cs)"
  proof (cases "Unicast < message.mode msg")
    case True
    from send_loop_all [OF this, of "newMessage msg" evs 0 ?cs ?st] p
    have "map fst (attempted (process evs msg t)) = map fst ?cs" by simp
    then show ?thesis by (metis length_map take_all order_refl)
  next
    case False
    with u show ?thesis by blast
  qed
  have 4: "message.mode msg = Unicast \<longrightarrow>
        (\<forall>x \<in> set (butlast (attempted (process evs msg t))). snd x \<noteq> None)
        \<and> (sent (process evs msg t) =
             (attempted (process evs msg t) \<noteq> [] \<and> snd (last (attempted (process evs msg t))) = None))
        \<and> (\<not> sent (process evs msg t) \<longrightarrow> length (attempted (process evs msg t)) = length ?cs)"
  proof
    assume "message.mode msg = Unicast"
    then have "\<not> Unicast < message.mode msg" by simp
    from u [OF this] show "(\<forall>x \<in> set (butlast (attempted (process evs msg t))). snd x \<noteq> None)
        \<and> (sent (process evs msg t) =
             (attempted (process evs msg t) \<noteq> [] \<and> snd (last (attempted (process evs msg t))) = None))
        \<and> (\<not> sent (process evs msg t) \<longrightarrow> length (attempted (process evs msg t)) = length ?cs)"
      by blast
  qed
  from 1 2 3 4 show ?thesis by blast
qed

theorem process_candidates_witness:
  "message.mode ex_uni = Unicast
   \<and> message.mode (ex_uni\<lparr>message.mode := Multicast\<rparr>) = Multicast
   \<and> map fst (attempted (process ex_evs (ex_uni\<lparr>message.mode := Multicast\<rparr>) ex_net)) = [''n1'']
   \<and> attempted (process ex_evs ex_uni ex_net) = [(''n1'', Some (ErrorNew ''broken pipe'')), (''n2'', None)]
   \<and> sent (process ex_evs ex_uni ex_net)
   \<and> map fst (filter (\<lambda>(n, l). candidate ex_uni l) (links ex_net)) = [''n1'', ''n2'']"
proof -
  have u: "message.mode ex_uni = Unicast" by (simp add: ex_uni_def)
  have m: "message.mode (ex_uni\<lparr>message.mode := Multicast\<rparr>) = Multicast" by simp
  have c1: "map fst (filter (\<lambda>(n, l). candidate (ex_uni\<lparr>message.mode := Multicast\<rparr>) l) (links ex_net))
              = [''n1'']"
    by (simp add: candidate_def ex_uni_def ex_net_def newTunnel_def newLink_def)
  have c2: "map fst (filter (\<lambda>(n, l). candidate ex_uni l) (links ex_net)) = [''n1'', ''n2'']"
    by (simp add: candidate_def ex_uni_def ex_net_def newTunnel_def newLink_def
          Unicast_def Multicast_def)
  have a: "attempted (process ex_evs ex_uni ex_net)
             = [(''n1'', Some (ErrorNew ''broken pipe'')), (''n2'', None)]"
    by (simp add: process_def ex_uni_def ex_net_def ex_evs_def newTunnel_def newLink_def
          Unicast_def Multicast_def Send_def Let_def dataSent_def newMessage_def hset_def ex_msg_def)
  from process_candidates [of "ex_uni\<lparr>message.mode := Multicast\<rparr>" ex_net ex_evs] m
  have "map fst (attempted (process ex_evs (ex_uni\<lparr>message.mode := Multicast\<rparr>) ex_net))
          = map fst (filter (\<lambda>(n, l). candidate (ex_uni\<lparr>message.mode := Multicast\<rparr>) l) (links ex_net))"
    by blast
  then have x: "map fst (attempted (process ex_evs (ex_uni\<lparr>message.mode := Multicast\<rparr>) ex_net)) = [''n1'']"
    by (simp only: c1)
  from process_candidates [of ex_uni ex_net ex_evs] u
  have "sent (process ex_evs ex_uni ex_net) =
          (attempted (process ex_evs ex_uni ex_net) \<noteq> []
           \<and> snd (last (attempted (process ex_evs ex_uni ex_net))) = None)"
    by blast
  then have y: "sent (process ex_evs ex_uni ex_net)" by (simp add: a)
  from u m x a y c2 show ?thesis by blast
qed

subsection \<open>Session keys\<close>

lemma keyed_cong: "sessions t' = sessions t \<Longrightarrow> keyed t' = keyed t"
  by (simp add: keyed_def)

lemma keyed_newSession: "keyed t \<Longrightarrow> keyed (snd (newSession ch sid t))"
  by (auto simp: keyed_def newSession_def Let_def split: option.splits)

lemma keyed_delSession: "keyed t \<Longrightarrow> keyed (delSession ch sid t)"
  by (auto simp: keyed_def delSession_def)

lemma keyed_put_session: "keyed t \<Longrightarrow> keyed (put_session c t)"
  by (auto simp: keyed_def put_session_def)

lemma keyed_rtt_link: "keyed (rtt_link ub d k t) = keyed t"
  by (rule keyed_cong) simp

lemma keyed_dial_open: "keyed t \<Longrightarrow> keyed (snd (dial_open env me c t))"
  by (auto simp: dial_open_def keyed_delSession keyed_rtt_link split: option.splits)

lemma keyed_dial_discover: "keyed t \<Longrightarrow> keyed (snd (dial_discover env c t))"
  by (auto simp: dial_discover_def Let_def keyed_delSession keyed_rtt_link keyed_dial_open
        keyed_put_session split: sum.splits)

lemma keyed_dial_pick: "keyed t \<Longrightarrow> keyed (snd (dial_pick env ls c t))"
  by (auto simp: dial_pick_def Let_def keyed_dial_discover keyed_put_session split: option.splits)

lemma keyed_Dial: "keyed t \<Longrightarrow> keyed (snd (Dial env ch options t))"
proof -
  assume k: "keyed t"
  show ?thesis
  proof (cases "newSession ch (uuid env) t")
    case (Pair r t0)
    have k0: "keyed t0" using keyed_newSession [OF k, of ch "uuid env"] Pair by simp
    show ?thesis
    proof (cases r)
      case None
      with Pair k0 show ?thesis by (simp add: Dial_def)
    next
      case (Some c0)
      with Pair k0 show ?thesis
        by (auto simp: Dial_def Let_def keyed_dial_pick keyed_put_session keyed_delSession
              split: prod.splits)
    qed
  qed
qed

lemma keyed_Listen: "keyed t \<Longrightarrow> keyed (snd (Listen ch md t))"
proof -
  assume k: "keyed t"
  show ?thesis
  proof (cases "newSession ch ''listener'' t")
    case (Pair r t0)
    have k0: "keyed t0" using keyed_newSession [OF k, of ch "''listener''"] Pair by simp
    with Pair show ?thesis
      by (auto simp: Listen_def Let_def keyed_put_session split: option.splits)
  qed
qed

lemma keyed_listen:
  "keyed t \<Longrightarrow> keyed (listen_close b ch sid t)"
  "keyed t \<Longrightarrow> keyed (listen_accept ch sid t)"
  "keyed t \<Longrightarrow> keyed (listen_deliver k ch r t)"
  "keyed t \<Longrightarrow> keyed (session_Close k t)"
  by (auto simp: keyed_def listen_close_def listen_accept_def listen_deliver_def session_Close_def
        getSession_def delSession_def split: option.splits if_splits)

lemma keyed_Connect: "keyed (snd (Connect cerr setup t)) = keyed t"
  by (rule keyed_cong) (simp add: Connect_def split: option.splits)

lemma keyed_Close_t: "keyed t \<Longrightarrow> keyed (snd (Close_t lerr t))"
  by (auto simp: keyed_def Close_t_def close_t_def)

lemma keyed_process: "keyed (s_tun (process evs msg t)) = keyed t"
  by (rule keyed_cong) simp

lemma keyed_apply: "keyed t \<Longrightarrow> keyed (apply_op x t)"
  by (cases x)
    (simp_all add: keyed_newSession keyed_delSession keyed_Dial keyed_Listen keyed_listen
       keyed_Connect keyed_Close_t keyed_process)

lemma keyed_run: "keyed t \<Longrightarrow> keyed (run ops t)"
  by (induction ops arbitrary: t) (simp_all add: keyed_apply)

lemma keyed_newTunnel: "keyed (newTunnel nds i tok)"
  by (simp add: keyed_def newTunnel_def)

lemma dial_open_adds: "sessions (snd (dial_open env me c t)) k = Some s \<Longrightarrow> sessions t k \<noteq> None"
  by (auto simp: dial_open_def delSession_def split: option.splits if_splits)

lemma dial_discover_adds:
  "sessions (snd (dial_discover env c t)) k = Some s \<Longrightarrow>
     sessions t k \<noteq> None \<or> k = session.channel c @ session.session c"
  by (auto simp: dial_discover_def Let_def delSession_def put_session_def
        dest!: dial_open_adds split: sum.splits if_splits)

lemma dial_pick_adds:
  "sessions (snd (dial_pick env ls c t)) k = Some s \<Longrightarrow>
     sessions t k \<noteq> None \<or> k = session.channel c @ session.session c"
  by (auto simp: dial_pick_def Let_def put_session_def
        dest!: dial_discover_adds split: option.splits if_splits)

lemma Dial_adds:
  "sessions (snd (Dial env ch options t)) k = Some s \<Longrightarrow> sessions t k \<noteq> None \<or> k = ch @ uuid env"
  by (auto simp: Dial_def Let_def newSession_def put_session_def delSession_def
        dest!: dial_pick_adds split: option.splits prod.splits if_splits)

lemma Listen_adds:
  "sessions (snd (Listen ch md t)) k = Some s \<Longrightarrow> sessions t k \<noteq> None \<or> k = ch @ ''listener''"
  by (auto simp: Listen_def Let_def newSession_def put_session_def
        split: option.splits prod.splits if_splits)

lemma apply_op_adds:
  "sessions (apply_op x t) k = Some s \<Longrightarrow> sessions t k = None \<Longrightarrow> new_key x = Some k"
proof (cases x)
  case (DoDial env ch options)
  then show "sessions (apply_op x t) k = Some s \<Longrightarrow> sessions t k = None \<Longrightarrow> new_key x = Some k"
    using Dial_adds [of env ch options t k s] by (simp add: new_key_def)
next
  case (DoListen ch md)
  then show "sessions (apply_op x t) k = Some s \<Longrightarrow> sessions t k = None \<Longrightarrow> new_key x = Some k"
    using Listen_adds [of ch md t k s] by (simp add: new_key_def)
qed (auto simp: new_key_def newSession_def delSession_def Connect_def Close_t_def close_t_def Let_def
       listen_close_def listen_accept_def listen_deliver_def session_Close_def getSession_def
       split: option.splits if_splits)

text \<open>
  Claim C2. In every state that the tunnel reaches from \<^verbatim>\<open>newTunnel\<close>, two entries of the
  sessions map with the same channel and session id are one entry; \<^verbatim>\<open>newSession\<close> returns
  not-ok and changes nothing when a session with that channel and session id exists; an
  operation adds a key to the map only if it is the key it passes to \<^verbatim>\<open>newSession\<close>, and
  \<^verbatim>\<open>Dial\<close> and \<^verbatim>\<open>Listen\<close> change nothing when their \<^verbatim>\<open>newSession\<close> fails.
\<close>

theorem sessions_unique:
  assumes "t = run ops (newTunnel nds i tok)"
  shows "(sessions t k1 = Some s1 \<and> sessions t k2 = Some s2
            \<and> session.channel s1 = session.channel s2 \<and> session.session s1 = session.session s2
          \<longrightarrow> k1 = k2 \<and> s1 = s2)
       \<and> (getSession ch sid t \<noteq> None \<longrightarrow> newSession ch sid t = (None, t))
       \<and> (sessions t k = None \<and> sessions (apply_op x t) k \<noteq> None \<longrightarrow> new_key x = Some k)
       \<and> (getSession ch (uuid env) t \<noteq> None \<longrightarrow> snd (Dial env ch options t) = t)
       \<and> (getSession ch ''listener'' t \<noteq> None \<longrightarrow> snd (Listen ch md t) = t)"
proof -
  have k: "keyed t"
    unfolding assms by (rule keyed_run [OF keyed_newTunnel])
  have 1: "sessions t k1 = Some s1 \<and> sessions t k2 = Some s2
            \<and> session.channel s1 = session.channel s2 \<and> session.session s1 = session.session s2
          \<longrightarrow> k1 = k2 \<and> s1 = s2"
  proof (intro impI, elim conjE)
    assume a: "sessions t k1 = Some s1" "sessions t k2 = Some s2"
      "session.channel s1 = session.channel s2" "session.session s1 = session.session s2"
    from k a(1) have "k1 = session.channel s1 @ session.session s1" by (simp add: keyed_def)
    moreover from k a(2) have "k2 = session.channel s2 @ session.session s2" by (simp add: keyed_def)
    ultimately have "k1 = k2" using a(3,4) by simp
    with a(1,2) show "k1 = k2 \<and> s1 = s2" by simp
  qed
  have 2: "getSession ch sid t \<noteq> None \<longrightarrow> newSession ch sid t = (None, t)"
    by (auto simp: getSession_def newSession_def)
  have 3: "sessions t k = None \<and> sessions (apply_op x t) k \<noteq> None \<longrightarrow> new_key x = Some k"
    using apply_op_adds [of x t k] by auto
  have 4: "getSession ch (uuid env) t \<noteq> None \<longrightarrow> snd (Dial env ch options t) = t"
    by (auto simp: getSession_def newSession_def Dial_def)
  have 5: "getSession ch ''listener'' t \<noteq> None \<longrightarrow> snd (Listen ch md t) = t"
    by (auto simp: getSession_def newSession_def Listen_def)
  from 1 2 3 4 5 show ?thesis by blast
qed

theorem sessions_unique_witness:
  "getSession ''ab'' ''c'' ex_tun \<noteq> None
   \<and> getSession ''chat'' ''listener'' ex_tun \<noteq> None
   \<and> newSession ''chat'' ''listener'' ex_tun = (None, ex_tun)
   \<and> snd (Listen ''chat'' 0 ex_tun) = ex_tun
   \<and> sessions ex_tun ''xy'' = None \<and> sessions (apply_op (NewSession ''x'' ''y'') ex_tun) ''xy'' \<noteq> None
   \<and> new_key (NewSession ''x'' ''y'') = Some ''xy''"
proof -
  have a: "getSession ''ab'' ''c'' ex_tun \<noteq> None" by (simp add: ex_defs)
  have b: "getSession ''chat'' ''listener'' ex_tun \<noteq> None" by (simp add: ex_defs)
  have c: "sessions ex_tun ''xy'' = None" by (simp add: ex_defs)
  have d: "sessions (apply_op (NewSession ''x'' ''y'') ex_tun) ''xy'' \<noteq> None"
    by (simp add: newSession_def Let_def split: option.splits)
  from sessions_unique [OF ex_tun_def, where ch = "''chat''" and sid = "''listener''"
      and k = "''xy''" and x = "NewSession ''x'' ''y''" and md = 0] a b c d
  show ?thesis by simp
qed

subsection \<open>Dial with a pinned link\<close>

lemma dial_scan_eq:
  "dial_scan i ch ls (acc, f) =
     (acc @ map snd (filter (\<lambda>(n, l). (i = [] \<or> id_l l = i) \<and> getChannel l ch \<noteq> 0) ls),
      f \<or> filter (\<lambda>(n, l). (i = [] \<or> id_l l = i) \<and> getChannel l ch \<noteq> 0) ls \<noteq> [])"
proof (induction ls arbitrary: acc f)
  case Nil
  then show ?case by simp
next
  case (Cons x ls)
  obtain n l where x: "x = (n, l)" by (cases x)
  show ?case unfolding x using Cons.IH by (cases "i = []") simp_all
qed

lemma dial_scan_empty:
  "i \<noteq> [] \<Longrightarrow> (fst (dial_scan i ch ls ([], False)) = []) =
     (\<forall>(n, l) \<in> set ls. id_l l = i \<longrightarrow> getChannel l ch = 0)"
  by (auto simp: dial_scan_eq filter_empty_conv)

lemma dial_open_not_found:
  "opened env \<noteq> Some ErrLinkNotFound \<Longrightarrow> fst (dial_open env me c t) \<noteq> Inl ErrLinkNotFound"
  by (auto simp: dial_open_def split: option.splits)

lemma dial_discover_not_found:
  "opened env \<noteq> Some ErrLinkNotFound \<Longrightarrow> discover env \<noteq> Inl ErrLinkNotFound \<Longrightarrow>
     fst (dial_discover env c t) \<noteq> Inl ErrLinkNotFound"
  by (auto simp: dial_discover_def Let_def dial_open_not_found split: sum.splits)

lemma dial_pick_not_found:
  "opened env \<noteq> Some ErrLinkNotFound \<Longrightarrow> discover env \<noteq> Inl ErrLinkNotFound \<Longrightarrow>
     fst (dial_pick env ls c t) \<noteq> Inl ErrLinkNotFound"
  by (auto simp: dial_pick_def Let_def dial_discover_not_found split: option.splits)

lemma put_del_session:
  "sessions t (session.channel c @ session.session c) = None \<Longrightarrow>
     delSession (session.channel c) (session.session c) (put_session c t) = t"
proof -
  assume n: "sessions t (session.channel c @ session.session c) = None"
  have "(sessions t)(session.channel c @ session.session c := None) = sessions t"
    using n by (intro ext) simp
  then show ?thesis by (simp add: delSession_def put_session_def)
qed

text \<open>
  What \<^verbatim>\<open>Dial\<close> does with an explicit link id, a fresh session id and no link-not-found error
  from discover or open: it returns \<^verbatim>\<open>ErrLinkNotFound\<close> exactly when no link of the links map
  has that id together with a mapping for the dialled channel, and then the session it created
  is deleted again and the tunnel is as before the call.
\<close>

lemma Dial_not_found_iff:
  assumes "getSession ch (uuid env) t = None" and "Link options \<noteq> []"
    and "discover env \<noteq> Inl ErrLinkNotFound" and "opened env \<noteq> Some ErrLinkNotFound"
  shows "(fst (Dial env ch options t) = Inl ErrLinkNotFound) =
           (\<forall>(n, l) \<in> set (links t). id_l l = Link options \<longrightarrow> getChannel l ch = 0)
       \<and> (fst (Dial env ch options t) = Inl ErrLinkNotFound \<longrightarrow> snd (Dial env ch options t) = t)"
proof -
  let ?P = "\<forall>(n, l) \<in> set (links t). id_l l = Link options \<longrightarrow> getChannel l ch = 0"
  obtain ls found where sc: "dial_scan (Link options) ch (links t) ([], False) = (ls, found)"
    by (cases "dial_scan (Link options) ch (links t) ([], False)")
  have e: "(ls = []) = ?P"
    using dial_scan_empty [OF assms(2), of ch "links t"] sc by simp
  show ?thesis
  proof (cases "ls = []")
    case True
    have n: "sessions t (ch @ uuid env) = None" using assms(1) by (simp add: getSession_def)
    have "(sessions t)(ch @ uuid env := None) = sessions t"
      using n by (intro ext) simp
    with True assms sc e show ?thesis
      by (simp add: Dial_def newSession_def getSession_def Let_def put_session_def delSession_def)
  next
    case False
    with assms sc e dial_pick_not_found [OF assms(4) assms(3)] show ?thesis
      by (simp add: Dial_def newSession_def getSession_def Let_def)
  qed
qed

lemma Dial_unmapped_link:
  "fst (Dial ex_env ''ch'' \<lparr>Link = ''n1'', Mode = 0, Timeout = 5\<rparr> ex_pinned) = Inl ErrLinkNotFound
   \<and> map (\<lambda>(n, l). id_l l) (links ex_pinned) = [''n1'']
   \<and> map fst (links ex_pinned) = [''n1'']"
  by (simp add: Dial_def newSession_def Let_def ex_pinned_def ex_env_def newTunnel_def newLink_def
        getChannel_def)

lemma ex_linked_val:
  "ex_linked = (newTunnel [''n1''] ''t'' ''k'')\<lparr>tun.connected := True,
      links := [(''n1'', (newLink ''n1'' ''n1'' 0)\<lparr>link.connected := True\<rparr>)]\<rparr>"
  by (simp add: ex_linked_def Connect_def newTunnel_def)

text \<open>
  Claim C4. The tunnel \<open>ex_linked\<close> has been connected to its node \<^verbatim>\<open>n1\<close>: the links map
  holds, under \<^verbatim>\<open>n1\<close>, a connected link with the id \<^verbatim>\<open>n1\<close>, which has not yet received
  an announce for the channel \<^verbatim>\<open>ch\<close>. \<^verbatim>\<open>Dial\<close> on \<^verbatim>\<open>ch\<close> with the link id \<^verbatim>\<open>n1\<close> returns
  \<^verbatim>\<open>ErrLinkNotFound\<close> although that link is in the links map, with the same result as for the
  id \<^verbatim>\<open>bogus\<close>, which is absent. In both calls the session that \<^verbatim>\<open>Dial\<close> created is deleted
  again and the tunnel is as before.
\<close>

theorem Dial_present_link_not_found:
  "map fst (links ex_linked) = [''n1'']
   \<and> map (\<lambda>(n, l). (id_l l, State l)) (links ex_linked) = [(''n1'', ''connected'')]
   \<and> getSession ''ch'' (uuid ex_env) ex_linked = None
   \<and> Dial ex_env ''ch'' \<lparr>Link = ''n1'', Mode = Unicast, Timeout = 5\<rparr> ex_linked
       = (Inl ErrLinkNotFound, ex_linked)
   \<and> Dial ex_env ''ch'' \<lparr>Link = ''bogus'', Mode = Unicast, Timeout = 5\<rparr> ex_linked
       = (Inl ErrLinkNotFound, ex_linked)"
  by (simp add: ex_linked_val Dial_def newSession_def Let_def ex_env_def newTunnel_def
      newLink_def getChannel_def getSession_def State_def put_session_def delSession_def
      word_sless_alt)
subsection \<open>Close\<close>

lemma Close_funpow:
  "((\<lambda>k. snd (Close k)) ^^ Suc n) l = snd (Close l)"
proof (induction n)
  case 0
  then show ?case by simp
next
  case (Suc n)
  have "((\<lambda>k. snd (Close k)) ^^ Suc (Suc n)) l = snd (Close (((\<lambda>k. snd (Close k)) ^^ Suc n) l))"
    by simp
  also have "\<dots> = snd (Close (snd (Close l)))" by (simp only: Suc.IH)
  also have "\<dots> = snd (Close l)" by (simp add: Close_def)
  finally show ?case .
qed

lemma Close_count:
  "socketCloses (((\<lambda>k. snd (Close k)) ^^ n) (newLink r u now)) = (if n = 0 then 0 else 1)"
proof (cases n)
  case 0
  then show ?thesis by (simp add: newLink_def)
next
  case (Suc k)
  then show ?thesis by (simp only: Close_funpow) (simp add: Close_def newLink_def)
qed

text \<open>
  Claim C9. A second \<^verbatim>\<open>Close\<close> of a link returns nil and leaves the link as the first
  left it; the socket and the close channel are closed by the first call only, so that any
  number of calls on a new link closes them once. For a tunnel
  in a state reached from \<^verbatim>\<open>newTunnel\<close>, a second \<^verbatim>\<open>Close\<close> returns nil and leaves the
  tunnel unchanged, and the connected flag is false after the first.
\<close>

theorem Close_idempotent:
  assumes "t = run ops (newTunnel nds i tok)"
  shows "Close (snd (Close l)) = (None, snd (Close l))
       \<and> fst (Close l) = None
       \<and> socketCloses (snd (Close l)) = (if link.closed l then socketCloses l else Suc (socketCloses l))
       \<and> link.closed (snd (Close l))
       \<and> socketCloses (((\<lambda>k. snd (Close k)) ^^ n) (newLink r u now)) = (if n = 0 then 0 else 1)
       \<and> Close_t lerr2 (snd (Close_t lerr1 t)) = (None, snd (Close_t lerr1 t))
       \<and> \<not> tun.connected (snd (Close_t lerr1 t))
       \<and> (tun.connected t \<longrightarrow> tun.closed (snd (Close_t lerr1 t)))"
proof -
  have "open_flags t"
    unfolding assms by (rule open_flags_run [OF open_flags_newTunnel])
  then have "Close (snd (Close l)) = (None, snd (Close l))
       \<and> fst (Close l) = None
       \<and> socketCloses (snd (Close l)) = (if link.closed l then socketCloses l else Suc (socketCloses l))
       \<and> link.closed (snd (Close l))
       \<and> Close_t lerr2 (snd (Close_t lerr1 t)) = (None, snd (Close_t lerr1 t))
       \<and> \<not> tun.connected (snd (Close_t lerr1 t))
       \<and> (tun.connected t \<longrightarrow> tun.closed (snd (Close_t lerr1 t)))"
    by (simp add: open_flags_def Close_def Close_t_def close_t_def)
  with Close_count [of n r u now] show ?thesis by blast
qed

theorem Close_idempotent_witness:
  "tun.connected ex_tun
   \<and> Close_t None (snd (Close_t (Some EOF) ex_tun)) = (None, snd (Close_t (Some EOF) ex_tun))
   \<and> \<not> tun.connected (snd (Close_t (Some EOF) ex_tun))
   \<and> tun.closed (snd (Close_t (Some EOF) ex_tun))
   \<and> Close (snd (Close (newLink ''r'' ''u'' 0))) = (None, snd (Close (newLink ''r'' ''u'' 0)))
   \<and> socketCloses (snd (Close (snd (Close (newLink ''r'' ''u'' 0))))) = 1"
proof -
  have c: "tun.connected ex_tun" by (simp add: ex_defs)
  have s: "socketCloses (snd (Close (snd (Close (newLink ''r'' ''u'' 0))))) = 1"
    by (simp add: Close_def newLink_def)
  from Close_idempotent [OF ex_tun_def, where l = "newLink ''r'' ''u'' 0" and ?lerr2.0 = None
      and ?lerr1.0 = "Some EOF"] c s
  show ?thesis by simp
qed

subsection \<open>The key of a session\<close>

text \<open>
  Claim C10. The sessions map is keyed by the concatenation of channel and session id: for two
  pairs with equal concatenations \<^verbatim>\<open>getSession\<close> returns the same result, \<^verbatim>\<open>newSession\<close>
  for the second pair fails when the first pair has a session, also right after the first
  pair's \<^verbatim>\<open>newSession\<close>, and \<^verbatim>\<open>delSession\<close> for the second pair deletes the session of the
  first.
\<close>

theorem key_concat:
  assumes "ch1 @ sid1 = ch2 @ sid2"
  shows "getSession ch2 sid2 t = getSession ch1 sid1 t
       \<and> (getSession ch1 sid1 t \<noteq> None \<longrightarrow> newSession ch2 sid2 t = (None, t))
       \<and> fst (newSession ch2 sid2 (snd (newSession ch1 sid1 t))) = None
       \<and> getSession ch1 sid1 (delSession ch2 sid2 t) = None"
  using assms by (auto simp: getSession_def newSession_def delSession_def Let_def split: option.splits)

theorem key_concat_witness:
  "getSession ''a'' ''bc'' ex_tun = getSession ''ab'' ''c'' ex_tun
   \<and> getSession ''ab'' ''c'' ex_tun \<noteq> None
   \<and> newSession ''a'' ''bc'' ex_tun = (None, ex_tun)
   \<and> fst (newSession ''a'' ''bc'' (snd (newSession ''ab'' ''c'' (newTunnel [] ''t'' ''k'')))) = None
   \<and> getSession ''ab'' ''c'' (delSession ''a'' ''bc'' ex_tun) = None"
proof -
  have k: "''ab'' @ ''c'' = ''a'' @ ''bc''" by simp
  have n: "getSession ''ab'' ''c'' ex_tun \<noteq> None" by (simp add: ex_defs)
  from key_concat [OF k, of ex_tun] key_concat [OF k, of "newTunnel [] ''t'' ''k''"] n
  show ?thesis by simp
qed

subsection \<open>Rounding to float64\<close>

lemma pow2_powi: "pow2 k = 2 powi k"
  by (simp add: pow2_def power_int_def field_simps)

lemma pow2_pos [simp]: "0 < pow2 k"
  by (simp add: pow2_def)

lemma pow2_add: "pow2 (a + b) = pow2 a * pow2 b"
  by (simp add: pow2_powi power_int_add)

lemma pow2_mono: "a \<le> b \<Longrightarrow> pow2 a \<le> pow2 b"
  by (simp add: pow2_powi power_int_increasing)

lemma pow2_less_cancel: "pow2 a < pow2 b \<Longrightarrow> a < b"
  using pow2_mono [of b a] by (cases "a < b") auto

lemma pow2_nat: "pow2 (int n) = 2 ^ n"
  by (simp add: pow2_def)

lemma expo_bounds:
  assumes "x \<noteq> 0"
  shows "pow2 (expo x) \<le> \<bar>x\<bar> \<and> \<bar>x\<bar> < pow2 (expo x + 1)"
proof (cases "1 \<le> \<bar>x\<bar>")
  case True
  define n where "n = \<lfloor>\<bar>x\<bar>\<rfloor>"
  have n1: "1 \<le> n" using True by (simp add: n_def)
  then have n0: "0 < n" by simp
  from bitlen_bounds [OF n0] have b: "2 ^ nat (bitlen n - 1) \<le> n" "n < 2 ^ nat (bitlen n)" by auto
  have bl: "1 \<le> bitlen n" using n0 by (simp add: bitlen_def floorlog_def)
  have e: "expo x = bitlen n - 1" using True by (simp add: expo_def n_def)
  have lo: "pow2 (expo x) \<le> \<bar>x\<bar>"
  proof -
    have "pow2 (expo x) = 2 ^ nat (bitlen n - 1)" using bl by (simp add: e pow2_def)
    also have "\<dots> = real_of_int (2 ^ nat (bitlen n - 1))" by simp
    also have "\<dots> \<le> real_of_int n" using b(1) by (simp only: of_int_le_iff)
    also have "\<dots> \<le> \<bar>x\<bar>" by (simp add: n_def)
    finally show ?thesis .
  qed
  have hi: "\<bar>x\<bar> < pow2 (expo x + 1)"
  proof -
    have "n + 1 \<le> 2 ^ nat (bitlen n)" using b(2) by simp
    then have "real_of_int (n + 1) \<le> real_of_int (2 ^ nat (bitlen n))" by (simp only: of_int_le_iff)
    moreover have "\<bar>x\<bar> < real_of_int (n + 1)" by (simp add: n_def)
    moreover have "pow2 (expo x + 1) = 2 ^ nat (bitlen n)" using bl by (simp add: e pow2_def)
    ultimately show ?thesis by simp
  qed
  from lo hi show ?thesis ..
next
  case False
  define y where "y = 1 / \<bar>x\<bar>"
  have x0: "0 < \<bar>x\<bar>" "\<bar>x\<bar> < 1" using assms False by auto
  have y1: "1 < y" using x0 by (simp add: y_def)
  define m where "m = \<lceil>y\<rceil> - 1"
  have m1: "1 \<le> m" using y1 by (simp add: m_def)
  then have m0: "0 < m" by simp
  have my: "real_of_int m < y" "y \<le> real_of_int m + 1"
    unfolding m_def by linarith+
  from bitlen_bounds [OF m0] have b: "2 ^ nat (bitlen m - 1) \<le> m" "m < 2 ^ nat (bitlen m)" by auto
  have bl: "1 \<le> bitlen m" using m0 by (simp add: bitlen_def floorlog_def)
  have e: "expo x = - bitlen m" using False by (simp add: expo_def m_def y_def)
  have lo: "pow2 (expo x) \<le> \<bar>x\<bar>"
  proof -
    have "m + 1 \<le> 2 ^ nat (bitlen m)" using b(2) by simp
    then have "real_of_int (m + 1) \<le> real_of_int (2 ^ nat (bitlen m))" by (simp only: of_int_le_iff)
    then have "y \<le> 2 ^ nat (bitlen m)" using my(2) by simp
    then have "1 / 2 ^ nat (bitlen m) \<le> 1 / y" using y1 by (simp add: frac_le)
    moreover have "1 / y = \<bar>x\<bar>" by (simp add: y_def)
    moreover have "pow2 (expo x) = 1 / 2 ^ nat (bitlen m)" using bl by (simp add: e pow2_def)
    ultimately show ?thesis by simp
  qed
  have hi: "\<bar>x\<bar> < pow2 (expo x + 1)"
  proof (cases "bitlen m = 1")
    case True
    then show ?thesis using x0 by (simp add: e pow2_def)
  next
    case False
    with bl have b2: "2 \<le> bitlen m" by simp
    have "real_of_int (2 ^ nat (bitlen m - 1)) \<le> real_of_int m" using b(1) by (simp only: of_int_le_iff)
    then have "2 ^ nat (bitlen m - 1) \<le> real_of_int m" by simp
    then have "2 ^ nat (bitlen m - 1) < y" using my(1) by linarith
    then have "1 / y < 1 / 2 ^ nat (bitlen m - 1)" by (simp add: frac_less2)
    moreover have "1 / y = \<bar>x\<bar>" by (simp add: y_def)
    moreover have "pow2 (expo x + 1) = 1 / 2 ^ nat (bitlen m - 1)"
      using b2 by (simp add: e pow2_def)
    ultimately show ?thesis by simp
  qed
  from lo hi show ?thesis ..
qed

lemma round_even_err: "\<bar>real_of_int (round_even x) - x\<bar> \<le> 1 / 2"
  unfolding round_even_def Let_def by (auto simp: abs_le_iff)

lemma round_even_int [simp]: "round_even (real_of_int i) = i"
  by (simp add: round_even_def)

lemma f64_round_rel:
  assumes lo: "pow2 (- 1022) \<le> \<bar>x\<bar>" and hi: "\<bar>x\<bar> \<le> 2 ^ 1023"
  shows "\<exists>y. f64_round x = Finite y \<and> \<bar>y - x\<bar> \<le> \<bar>x\<bar> / 2 ^ 53"
proof -
  have x0: "x \<noteq> 0"
  proof
    assume "x = 0"
    with lo have "pow2 (- 1022) \<le> 0" by simp
    moreover have "0 < pow2 (- 1022)" by (rule pow2_pos)
    ultimately show False by linarith
  qed
  from expo_bounds [OF x0] have eb: "pow2 (expo x) \<le> \<bar>x\<bar>" "\<bar>x\<bar> < pow2 (expo x + 1)" by auto
  have "pow2 (- 1022) < pow2 (expo x + 1)" using lo eb(2) by linarith
  then have e: "- 1022 \<le> expo x" using pow2_less_cancel by fastforce
  define q where "q = pow2 (expo x - 52)"
  define y where "y = real_of_int (round_even (x / q)) * q"
  have q0: "0 < q" by (simp add: q_def)
  have q2: "q = pow2 (expo x) / 2 ^ 52"
    using pow2_add [of "expo x" "- 52"] by (simp add: q_def pow2_def)
  have "y - x = (real_of_int (round_even (x / q)) - x / q) * q"
    using q0 by (simp add: y_def field_simps)
  then have "\<bar>y - x\<bar> = \<bar>real_of_int (round_even (x / q)) - x / q\<bar> * q"
    using q0 by (simp add: abs_mult)
  also have "\<dots> \<le> (1 / 2) * q"
    using round_even_err [of "x / q"] q0 by (intro mult_right_mono) simp_all
  also have "\<dots> = pow2 (expo x) / 2 ^ 53" by (simp add: q2)
  also have "\<dots> \<le> \<bar>x\<bar> / 2 ^ 53" using eb(1) by (simp add: divide_right_mono)
  finally have err: "\<bar>y - x\<bar> \<le> \<bar>x\<bar> / 2 ^ 53" .
  have "\<bar>y\<bar> \<le> \<bar>x\<bar> + \<bar>x\<bar> / 2 ^ 53" using err by linarith
  also have "\<dots> \<le> 2 ^ 1023 + 2 ^ 1023 / 2 ^ 53" using hi by (intro add_mono divide_right_mono) simp_all
  also have "\<dots> < (2 ^ 1024 :: real)" by simp
  finally have fin: "\<not> 2 ^ 1024 \<le> \<bar>y\<bar>" by simp
  have "f64_round x = Finite y"
    using x0 e fin by (simp add: f64_round_def Let_def q_def y_def max_def)
  with err show ?thesis by blast
qed

lemma f64_round_int:
  assumes "\<bar>i\<bar> < 2 ^ 53"
  shows "f64_round (real_of_int i) = Finite (real_of_int i)"
proof (cases "i = 0")
  case True
  then show ?thesis by (simp add: f64_round_def)
next
  case False
  let ?x = "real_of_int i"
  have x0: "?x \<noteq> 0" using False by simp
  from expo_bounds [OF x0] have eb: "pow2 (expo ?x) \<le> \<bar>?x\<bar>" "\<bar>?x\<bar> < pow2 (expo ?x + 1)" by auto
  have "1 \<le> \<bar>?x\<bar>" using False by auto
  then have "pow2 0 < pow2 (expo ?x + 1)" using eb(2) by (simp add: pow2_def)
  then have e0: "0 \<le> expo ?x" using pow2_less_cancel by fastforce
  have "real_of_int \<bar>i\<bar> < real_of_int (2 ^ 53)" using assms by (simp only: of_int_less_iff)
  then have "\<bar>?x\<bar> < 2 ^ 53" by simp
  then have "pow2 (expo ?x) < pow2 53" using eb(1) by (simp add: pow2_def)
  then have e52: "expo ?x \<le> 52" using pow2_less_cancel by fastforce
  define k where "k = nat (52 - expo ?x)"
  have q: "pow2 (expo ?x - 52) = 1 / 2 ^ k"
    using e52 e0 by (simp add: pow2_def k_def)
  have r: "?x / (1 / 2 ^ k) = real_of_int (i * 2 ^ k)" by simp
  have y: "real_of_int (round_even (?x / (1 / 2 ^ k))) * (1 / 2 ^ k) = ?x"
    unfolding r round_even_int by simp
  have "(2::real) ^ 53 \<le> 2 ^ 1024" by simp
  then have lt: "\<not> 2 ^ 1024 \<le> \<bar>?x\<bar>" using \<open>\<bar>?x\<bar> < 2 ^ 53\<close> by linarith
  have m: "max (expo ?x) (- 1022) = expo ?x" using e0 by simp
  define Y where "Y = real_of_int (round_even (?x / pow2 (expo ?x - 52))) * pow2 (expo ?x - 52)"
  have Yx: "Y = ?x" unfolding Y_def q by (rule y)
  have "f64_round ?x = (if 2 ^ 1024 \<le> \<bar>Y\<bar> then (if 0 < ?x then PosInf else NegInf) else Finite Y)"
    unfolding Y_def by (simp only: f64_round_def Let_def m x0 if_False)
  then show ?thesis unfolding Yx using lt by (simp only: if_False)
qed

lemmas f64_eval = f64_round_def expo_def pow2_def round_even_def Let_def compute_bitlen

lemma c08_val: "c08 = Finite (3602879701896397 / 2 ^ 52)"
  by (simp add: c08_def f64_eval)

lemma c02_val: "c02 = Finite (3602879701896397 / 2 ^ 54)"
  by (simp add: c02_def f64_eval)

lemma c1e9_val: "c1e9 = Finite 1000000000"
  using f64_round_int [of 1000000000] by (simp add: c1e9_def)

lemma float64_of_int_exact: "\<bar>i\<bar> < 2 ^ 53 \<Longrightarrow> float64_of_int i = Finite (real_of_int i)"
  by (simp add: float64_of_int_def f64_round_int)

lemma pow2_m1022_le: "pow2 (- 1022) \<le> 1 / 8"
proof -
  have "(2::real) ^ 3 \<le> 2 ^ 1022" by (rule power_increasing) simp_all
  then show ?thesis by (simp add: pow2_def field_simps)
qed

lemma f64_round_pos:
  assumes "1 / 8 \<le> x" and "x \<le> 2 ^ 1023"
  shows "\<exists>y. f64_round x = Finite y \<and> \<bar>y - x\<bar> \<le> x / 2 ^ 53"
proof -
  have "pow2 (- 1022) \<le> \<bar>x\<bar>" using assms(1) pow2_m1022_le by linarith
  moreover have "\<bar>x\<bar> \<le> 2 ^ 1023" using assms by simp
  ultimately obtain y where "f64_round x = Finite y" "\<bar>y - x\<bar> \<le> \<bar>x\<bar> / 2 ^ 53"
    using f64_round_rel by blast
  moreover have "\<bar>x\<bar> = x" using assms(1) by simp
  ultimately show ?thesis by auto
qed


text \<open>
  \<open>round_even t\<close> is at least the integer \<open>K\<close> when \<open>t\<close> is above \<open>K - 1/2\<close>, or equal to it
  with \<open>K\<close> even. Hence a rounded sum reaches the integer \<open>k\<close> when the sum is at least
  \<open>k (1 - 2^-54)\<close>. The constants \<^verbatim>\<open>0.8\<close> and \<^verbatim>\<open>0.2\<close> are the exact fractions times
  \<open>1 + 2^-54\<close>, so that each rounded product of \<^verbatim>\<open>setRTT\<close> is at least the exact product
  times \<open>1 - 2^-54\<close>. A value below \<open>2^n\<close> is rounded with an error of at most \<open>2^(n-54)\<close>,
  and a value from \<open>2^49\<close> up to \<open>2^50\<close> to a multiple of \<open>1/8\<close>, which is above four fifths
  of an integer by a multiple of \<open>1/40\<close>. Together this gives the integer part of the computed
  average for an estimate and a sample below \<open>2^50\<close>.
\<close>

lemma round_even_ge:
  assumes "real_of_int K - 1 / 2 \<le> t" and "real_of_int K - 1 / 2 < t \<or> even K"
  shows "K \<le> round_even t"
proof (cases "real_of_int K \<le> t")
  case True
  then have "K \<le> \<lfloor>t\<rfloor>" by (simp add: le_floor_iff)
  moreover have "\<lfloor>t\<rfloor> \<le> round_even t" by (simp add: round_even_def Let_def)
  ultimately show ?thesis by linarith
next
  case False
  have f: "\<lfloor>t\<rfloor> = K - 1"
    using assms(1) False by (intro floor_unique) simp_all
  show ?thesis
  proof (cases "real_of_int K - 1 / 2 < t")
    case True
    then show ?thesis by (simp add: round_even_def Let_def f)
  next
    case False
    with assms have t: "t = real_of_int K - 1 / 2" and e: "even K" by auto
    have f': "\<lfloor>real_of_int K - 1 / 2\<rfloor> = K - 1" using f unfolding t .
    have "odd (K - 1)" using e by simp
    then show ?thesis unfolding t round_even_def Let_def f' by simp
  qed
qed

lemma f64_round_form:
  assumes lo: "1 / 8 \<le> x" and hi: "x \<le> 2 ^ 1000"
  shows "f64_round x = Finite (real_of_int (round_even (x / pow2 (expo x - 52))) * pow2 (expo x - 52))"
proof -
  have x0: "x \<noteq> 0" using lo by auto
  have ax: "\<bar>x\<bar> = x" using lo by simp
  from expo_bounds [OF x0] have eb: "pow2 (expo x) \<le> x" "x < pow2 (expo x + 1)"
    unfolding ax by auto
  have "pow2 (- 1022) < pow2 (expo x + 1)" using lo eb(2) pow2_m1022_le by linarith
  then have e: "- 1022 \<le> expo x" using pow2_less_cancel by fastforce
  define q where "q = pow2 (expo x - 52)"
  define y where "y = real_of_int (round_even (x / q)) * q"
  have q0: "0 < q" by (simp add: q_def)
  have q2: "q = pow2 (expo x) / 2 ^ 52"
    using pow2_add [of "expo x" "- 52"] by (simp add: q_def pow2_def)
  have "y - x = (real_of_int (round_even (x / q)) - x / q) * q"
    using q0 by (simp add: y_def field_simps)
  then have "\<bar>y - x\<bar> = \<bar>real_of_int (round_even (x / q)) - x / q\<bar> * q"
    using q0 by (simp add: abs_mult)
  also have "\<dots> \<le> (1 / 2) * q"
    using round_even_err [of "x / q"] q0 by (intro mult_right_mono) simp_all
  also have "\<dots> = pow2 (expo x) / 2 ^ 53" by (simp add: q2)
  also have "\<dots> \<le> x / 2 ^ 53" using eb(1) by (simp add: divide_right_mono)
  finally have err: "\<bar>y - x\<bar> \<le> x / 2 ^ 53" .
  have "\<bar>y\<bar> \<le> x + x / 2 ^ 53" using err lo by linarith
  also have "\<dots> \<le> 2 ^ 1000 + 2 ^ 1000 / 2 ^ 53" using hi by (intro add_mono divide_right_mono) simp_all
  also have "\<dots> < (2 ^ 1024 :: real)" by simp
  finally have fin: "\<not> 2 ^ 1024 \<le> \<bar>y\<bar>" by simp
  have "f64_round x = Finite y"
    using x0 e fin by (simp add: f64_round_def Let_def q_def y_def max_def)
  then show ?thesis by (simp add: y_def q_def)
qed

lemma f64_round_shift_lower:
  assumes A: "1 / 8 \<le> A" "A \<le> 2 ^ 999" and w: "f64_round (A * (1 + 1 / 2 ^ 54)) = Finite w"
  shows "A * (1 - 1 / 2 ^ 54) \<le> w"
proof -
  define v where "v = A * (1 + 1 / 2 ^ 54)"
  have vA: "v = A + A / 2 ^ 54" by (simp add: v_def algebra_simps)
  have A0: "0 \<le> A / 2 ^ 54" using A(1) by simp
  have v_lo: "1 / 8 \<le> v" using A(1) A0 vA by linarith
  have v_hi: "v \<le> 2 ^ 1000"
  proof -
    have "A / 2 ^ 54 \<le> A" using A(1) by (simp add: field_simps)
    then have "v \<le> 2 * A" using vA by linarith
    also have "\<dots> \<le> 2 * 2 ^ 999" using A(2) by simp
    also have "\<dots> = (2::real) ^ 1000" by simp
    finally show ?thesis .
  qed
  have v0: "v \<noteq> 0" using v_lo by auto
  have av: "\<bar>v\<bar> = v" using v_lo by simp
  from expo_bounds [OF v0] have eb: "pow2 (expo v) \<le> v" "v < pow2 (expo v + 1)"
    unfolding av by auto
  define q where "q = pow2 (expo v - 52)"
  define R where "R = round_even (v / q)"
  have q0: "0 < q" by (simp add: q_def)
  have q2: "q = pow2 (expo v) / 2 ^ 52"
    using pow2_add [of "expo v" "- 52"] by (simp add: q_def pow2_def)
  have wv: "w = real_of_int R * q"
    using f64_round_form [OF v_lo v_hi] w by (simp add: v_def q_def R_def)
  have pq: "pow2 (expo v) = 2 ^ 52 * q" by (simp add: q2)
  have ge: "pow2 (expo v) \<le> w"
  proof -
    have "2 ^ 52 * q \<le> v" using eb(1) pq by simp
    then have "2 ^ 52 \<le> v / q" using q0 by (simp add: pos_le_divide_eq)
    moreover have "real_of_int (2 ^ 52) = 2 ^ 52" by simp
    ultimately have "real_of_int (2 ^ 52) - 1 / 2 < v / q" by linarith
    then have "2 ^ 52 \<le> R" unfolding R_def by (intro round_even_ge) simp_all
    then have "real_of_int (2 ^ 52) \<le> real_of_int R" by (simp only: of_int_le_iff)
    then have "2 ^ 52 * q \<le> real_of_int R * q" using q0 by (intro mult_right_mono) simp_all
    then show ?thesis by (simp add: pq wv)
  qed
  have near: "\<bar>w - v\<bar> \<le> pow2 (expo v) / 2 ^ 53"
  proof -
    have "w - v = (real_of_int R - v / q) * q" using q0 by (simp add: wv field_simps)
    then have "\<bar>w - v\<bar> = \<bar>real_of_int R - v / q\<bar> * q" using q0 by (simp add: abs_mult)
    also have "\<dots> \<le> (1 / 2) * q"
      using round_even_err [of "v / q"] q0 unfolding R_def by (intro mult_right_mono) simp_all
    also have "\<dots> = pow2 (expo v) / 2 ^ 53" by (simp add: q2)
    finally show ?thesis .
  qed
  have goal: "A * (1 - 1 / 2 ^ 54) = A - A / 2 ^ 54" by (simp add: algebra_simps)
  show ?thesis
  proof (cases "pow2 (expo v) \<le> A")
    case True
    then have "pow2 (expo v) / 2 ^ 53 \<le> A / 2 ^ 53" by (simp add: divide_right_mono)
    moreover have "A / 2 ^ 53 = 2 * (A / 2 ^ 54)" by simp
    ultimately show ?thesis using near vA unfolding goal by linarith
  next
    case False
    then show ?thesis using ge A0 unfolding goal by linarith
  qed
qed

lemma f64_round_reach:
  assumes k: "1 \<le> k" and z: "real_of_int k * (1 - 1 / 2 ^ 54) \<le> z" "z < 2 ^ 53"
    and s: "f64_round z = Finite s"
  shows "real_of_int k \<le> s"
proof -
  have k1: "1 \<le> real_of_int k" using k by simp
  have c: "(0::real) < 1 - 1 / 2 ^ 54" by simp
  have "1 * (1 - 1 / 2 ^ 54) \<le> real_of_int k * (1 - 1 / 2 ^ 54)"
    using k1 c by (intro mult_right_mono) simp_all
  then have zh: "1 / 2 \<le> z" using z(1) by simp
  then have z_lo: "1 / 8 \<le> z" by simp
  have z_hi: "z \<le> 2 ^ 1000"
  proof -
    have "z \<le> 2 ^ 53" using z(2) by simp
    also have "\<dots> \<le> (2::real) ^ 1000" by (rule power_increasing) simp_all
    finally show ?thesis .
  qed
  have z0: "z \<noteq> 0" using z_lo by auto
  have az: "\<bar>z\<bar> = z" using z_lo by simp
  from expo_bounds [OF z0] have eb: "pow2 (expo z) \<le> z" "z < pow2 (expo z + 1)"
    unfolding az by auto
  have "pow2 (expo z) < pow2 53" using eb(1) z(2) by (simp add: pow2_def)
  then have e_hi: "expo z \<le> 52" using pow2_less_cancel by fastforce
  have "pow2 (- 1) < pow2 (expo z + 1)" using eb(2) zh by (simp add: pow2_def)
  then have e_lo: "- 1 \<le> expo z" using pow2_less_cancel by fastforce
  define m where "m = nat (52 - expo z)"
  define n where "n = nat (expo z + 1)"
  have mn: "n + m = 53" using e_lo e_hi by (simp add: m_def n_def)
  define q where "q = pow2 (expo z - 52)"
  define R where "R = round_even (z / q)"
  have qm: "q = 1 / 2 ^ m"
  proof (cases "expo z = 52")
    case True
    then show ?thesis by (simp add: q_def m_def pow2_def)
  next
    case False
    with e_hi have "expo z - 52 < 0" by simp
    moreover have "nat (- (expo z - 52)) = m" by (simp add: m_def)
    ultimately show ?thesis by (simp add: q_def pow2_def)
  qed
  have pn: "pow2 (expo z + 1) = 2 ^ n" using e_lo by (simp add: pow2_def n_def)
  have sz: "s = real_of_int R * q"
    using f64_round_form [OF z_lo z_hi] s by (simp add: q_def R_def)
  have zq: "z / q = z * 2 ^ m" by (simp add: qm)
  have kn: "k \<le> 2 ^ n"
  proof (rule ccontr)
    assume "\<not> k \<le> 2 ^ n"
    then have "2 ^ n + 1 \<le> k" by simp
    then have "real_of_int (2 ^ n + 1) \<le> real_of_int k" by (simp only: of_int_le_iff)
    then have "2 ^ n + 1 \<le> real_of_int k" by simp
    then have "(2 ^ n + 1) * (1 - 1 / 2 ^ 54) \<le> real_of_int k * (1 - 1 / 2 ^ 54)"
      using c by (intro mult_right_mono) simp_all
    then have "(2 ^ n + 1) * (1 - 1 / 2 ^ 54) < (2::real) ^ n" using z(1) eb(2) pn by linarith
    moreover have "((2::real) ^ n + 1) * (1 - 1 / 2 ^ 54) = 2 ^ n + 1 - (2 ^ n + 1) / 2 ^ 54"
      by (simp only: right_diff_distrib mult_1_right times_divide_eq_right)
    ultimately have "1 < (2 ^ n + 1) / (2::real) ^ 54" by linarith
    moreover have "(2::real) ^ n \<le> 2 ^ 53" using mn by (intro power_increasing) simp_all
    then have "(2 ^ n + 1) / (2::real) ^ 54 \<le> (2 ^ 53 + 1) / 2 ^ 54"
      by (intro divide_right_mono) simp_all
    moreover have "(2 ^ 53 + 1) / (2::real) ^ 54 < 1" by simp
    ultimately show False by linarith
  qed
  define K where "K = k * 2 ^ m"
  have K53: "K \<le> 2 ^ 53"
  proof -
    have "k * 2 ^ m \<le> 2 ^ n * 2 ^ m" using kn by (intro mult_right_mono) simp_all
    also have "\<dots> = (2::int) ^ 53" using mn by (simp add: power_add [symmetric])
    finally show ?thesis by (simp add: K_def)
  qed
  have Kr: "real_of_int K = real_of_int k * 2 ^ m" by (simp add: K_def)
  have low: "real_of_int K - real_of_int K / 2 ^ 54 \<le> z / q"
  proof -
    have "real_of_int k * (1 - 1 / 2 ^ 54) * 2 ^ m \<le> z * 2 ^ m"
      using z(1) by (intro mult_right_mono) simp_all
    then show ?thesis by (simp add: zq Kr algebra_simps)
  qed
  have KR: "K \<le> R"
  proof (cases "K = 2 ^ 53")
    case True
    have "real_of_int K / 2 ^ 54 = 1 / 2" by (simp add: True)
    then have "real_of_int K - 1 / 2 \<le> z / q" using low by simp
    moreover have "even K" by (simp add: True)
    ultimately show ?thesis unfolding R_def by (intro round_even_ge) simp_all
  next
    case False
    with K53 have "K < 2 ^ 53" by simp
    then have "real_of_int K < real_of_int (2 ^ 53)" by (simp only: of_int_less_iff)
    then have "real_of_int K < 2 ^ 53" by simp
    then have "real_of_int K / 2 ^ 54 < 1 / 2" by simp
    then have "real_of_int K - 1 / 2 < z / q" using low by linarith
    then show ?thesis unfolding R_def by (intro round_even_ge) simp_all
  qed
  have "real_of_int K \<le> real_of_int R" using KR by (simp only: of_int_le_iff)
  then have "real_of_int K * q \<le> real_of_int R * q"
    by (intro mult_right_mono) (simp_all add: qm)
  moreover have "real_of_int K * q = real_of_int k" by (simp add: Kr qm)
  ultimately show ?thesis by (simp add: sz)
qed

lemma f64_round_abs:
  assumes lo: "1 / 8 \<le> v" and hi: "v < 2 ^ n" and n: "n \<le> 1000"
  shows "\<exists>w. f64_round v = Finite w \<and> \<bar>w - v\<bar> \<le> 2 ^ n / 2 ^ 54"
proof -
  have "(2::real) ^ n \<le> 2 ^ 1000" using n by (intro power_increasing) simp_all
  then have v_hi: "v \<le> 2 ^ 1000" using hi by linarith
  have v0: "v \<noteq> 0" using lo by auto
  have av: "\<bar>v\<bar> = v" using lo by simp
  from expo_bounds [OF v0] have eb: "pow2 (expo v) \<le> v" "v < pow2 (expo v + 1)"
    unfolding av by auto
  define q where "q = pow2 (expo v - 52)"
  define w where "w = real_of_int (round_even (v / q)) * q"
  have q0: "0 < q" by (simp add: q_def)
  have q2: "q = pow2 (expo v) / 2 ^ 52"
    using pow2_add [of "expo v" "- 52"] by (simp add: q_def pow2_def)
  have fw: "f64_round v = Finite w"
    using f64_round_form [OF lo v_hi] by (simp add: w_def q_def)
  have "pow2 (expo v) < pow2 (int n)" using eb(1) hi by (simp add: pow2_nat)
  then have "expo v < int n" by (rule pow2_less_cancel)
  then have "expo v \<le> int n - 1" by simp
  then have "pow2 (expo v) \<le> pow2 (int n - 1)" by (rule pow2_mono)
  moreover have "pow2 (int n - 1) = 2 ^ n / 2"
    using pow2_add [of "int n" "- 1"] by (simp add: pow2_nat) (simp add: pow2_def)
  ultimately have pe: "pow2 (expo v) \<le> 2 ^ n / 2" by simp
  have "w - v = (real_of_int (round_even (v / q)) - v / q) * q"
    using q0 by (simp add: w_def field_simps)
  then have "\<bar>w - v\<bar> = \<bar>real_of_int (round_even (v / q)) - v / q\<bar> * q"
    using q0 by (simp add: abs_mult)
  also have "\<dots> \<le> (1 / 2) * q"
    using round_even_err [of "v / q"] q0 by (intro mult_right_mono) simp_all
  also have "\<dots> = pow2 (expo v) / 2 ^ 53" by (simp add: q2)
  also have "\<dots> \<le> (2 ^ n / 2) / 2 ^ 53" using pe by (intro divide_right_mono) simp_all
  also have "\<dots> = 2 ^ n / 2 ^ 54" by simp
  finally show ?thesis using fw by blast
qed

lemma f64_round_top:
  assumes lo: "2 ^ 49 \<le> v" and hi: "v < 2 ^ 50"
  shows "\<exists>R. f64_round v = Finite (real_of_int R / 8)"
proof -
  have l8: "1 / 8 \<le> v"
  proof -
    have "(1::real) / 8 \<le> 2 ^ 49" by simp
    with lo show ?thesis by linarith
  qed
  have "(2::real) ^ 50 \<le> 2 ^ 1000" by (intro power_increasing) simp_all
  then have v_hi: "v \<le> 2 ^ 1000" using hi by linarith
  have v0: "v \<noteq> 0" using l8 by auto
  have av: "\<bar>v\<bar> = v" using l8 by simp
  from expo_bounds [OF v0] have eb: "pow2 (expo v) \<le> v" "v < pow2 (expo v + 1)"
    unfolding av by auto
  have "pow2 (expo v) < pow2 50" using eb(1) hi by (simp add: pow2_def)
  then have e1: "expo v < 50" by (rule pow2_less_cancel)
  have "pow2 49 < pow2 (expo v + 1)" using eb(2) lo by (simp add: pow2_def)
  then have e2: "49 < expo v + 1" by (rule pow2_less_cancel)
  have e: "expo v = 49" using e1 e2 by simp
  have q: "pow2 (expo v - 52) = 1 / 8" by (simp add: e pow2_def)
  from f64_round_form [OF l8 v_hi]
  have "f64_round v = Finite (real_of_int (round_even (v / (1 / 8))) / 8)"
    unfolding q by simp
  then show ?thesis by blast
qed

lemma rtt_average_floor:
  assumes r: "0 < r" "r < 2 ^ 50" and d: "0 \<le> d" "d < 2 ^ 50"
  shows "\<exists>s. fadd (fmul c08 (float64_of_int r)) (fmul c02 (float64_of_int d)) = Finite s
           \<and> 0 \<le> s \<and> s < 2 ^ 50 \<and> \<lfloor>s\<rfloor> = (4 * r + d) div 5"
proof -
  define E where "E = real_of_int (4 * r + d) / 5"
  define A where "A = 4 * real_of_int r / 5"
  define D where "D = real_of_int d / 5"
  define xa where "xa = 3602879701896397 / 2 ^ 52 * real_of_int r"
  define xb where "xb = 3602879701896397 / 2 ^ 54 * real_of_int d"
  have r53: "r < 2 ^ 53" "d < 2 ^ 53" using r d by simp_all
  have rr: "1 \<le> real_of_int r" using r by simp
  have dr: "0 \<le> real_of_int d" using d by simp
  have "r \<le> 2 ^ 50 - 1" using r by simp
  then have "real_of_int r \<le> real_of_int (2 ^ 50 - 1)" by (simp only: of_int_le_iff)
  then have r_hi: "real_of_int r \<le> 2 ^ 50 - 1" by simp
  have "d \<le> 2 ^ 50 - 1" using d by simp
  then have "real_of_int d \<le> real_of_int (2 ^ 50 - 1)" by (simp only: of_int_le_iff)
  then have d_hi: "real_of_int d \<le> 2 ^ 50 - 1" by simp
  have EAD: "E = A + D" by (simp add: E_def A_def D_def)
  have A_lo: "4 / 5 \<le> A" using rr by (simp add: A_def)
  have D_lo: "0 \<le> D" using dr by (simp add: D_def)
  have A_hi: "A \<le> 4 / 5 * (2 ^ 50 - 1)" using r_hi by (simp add: A_def)
  have D_hi: "D \<le> 1 / 5 * (2 ^ 50 - 1)" using d_hi by (simp add: D_def)
  have E_lo: "4 / 5 \<le> E" using A_lo D_lo EAD by linarith
  have E_hi: "E \<le> 2 ^ 50 - 1" using A_hi D_hi EAD by simp
  have xaA: "xa = A * (1 + 1 / 2 ^ 54)" by (simp add: xa_def A_def)
  have xbD: "xb = D * (1 + 1 / 2 ^ 54)" by (simp add: xb_def D_def)
  have xaS: "xa = A + A / 2 ^ 54" unfolding xaA by (simp add: field_simps)
  have xbS: "xb = D + D / 2 ^ 54" unfolding xbD by (simp add: field_simps)
  have sA: "0 \<le> A / 2 ^ 54" "A / 2 ^ 54 \<le> 1 / 20" using A_lo A_hi by simp_all
  have sD: "0 \<le> D / 2 ^ 54" "D / 2 ^ 54 \<le> 1 / 80" using D_lo D_hi by simp_all
  have R: "float64_of_int r = Finite (real_of_int r)"
    using r r53 by (intro float64_of_int_exact) simp
  have Dd: "float64_of_int d = Finite (real_of_int d)"
    using d r53 by (intro float64_of_int_exact) simp
  have xa_lo: "1 / 8 \<le> xa" using xaS sA(1) A_lo by linarith
  have xa_hi: "xa < 2 ^ 50" using xaS sA(2) A_hi by simp
  have xb_hi: "xb < 2 ^ 48" using xbS sD(2) D_hi by simp
  have big: "(2::real) ^ 50 \<le> 2 ^ 999" by (rule power_increasing) simp_all
  obtain a where a: "f64_round xa = Finite a" "\<bar>a - xa\<bar> \<le> 1 / 16"
  proof -
    from f64_round_abs [OF xa_lo xa_hi]
    obtain w where "f64_round xa = Finite w" "\<bar>w - xa\<bar> \<le> 2 ^ 50 / 2 ^ 54" by auto
    then show ?thesis using that by simp
  qed
  have a_low: "A * (1 - 1 / 2 ^ 54) \<le> a"
  proof -
    have "1 / 8 \<le> A" using A_lo by simp
    moreover have "A \<le> 2 ^ 999" using A_hi big by simp
    ultimately show ?thesis using a(1) unfolding xaA by (rule f64_round_shift_lower)
  qed
  have a_up: "a - A \<le> 1 / 10"
  proof (cases "xa < 2 ^ 49")
    case True
    from f64_round_abs [OF xa_lo True]
    obtain w where "f64_round xa = Finite w" "\<bar>w - xa\<bar> \<le> 2 ^ 49 / 2 ^ 54" by auto
    with a(1) have "\<bar>a - xa\<bar> \<le> 1 / 32" by simp
    then show ?thesis using xaS sA(2) by linarith
  next
    case False
    then have "2 ^ 49 \<le> xa" by simp
    from f64_round_top [OF this xa_hi] a(1)
    obtain Ra where Ra: "a = real_of_int Ra / 8" by auto
    have eq: "a - A = real_of_int (5 * Ra - 32 * r) / 40" by (simp add: Ra A_def)
    have "a - A \<le> 1 / 16 + 1 / 20" using a(2) xaS sA(2) by linarith
    then have "real_of_int (5 * Ra - 32 * r) / 40 \<le> 1 / 16 + 1 / 20" unfolding eq .
    then have "real_of_int (5 * Ra - 32 * r) < 5" by simp
    then have "5 * Ra - 32 * r < 5" by (simp only: of_int_less_numeral_iff)
    then have "5 * Ra - 32 * r \<le> 4" by simp
    then have "real_of_int (5 * Ra - 32 * r) \<le> 4" by (simp only: of_int_le_numeral_iff)
    then show ?thesis unfolding eq by simp
  qed
  obtain b where b: "f64_round xb = Finite b" "\<bar>b - xb\<bar> \<le> 1 / 64"
    "D * (1 - 1 / 2 ^ 54) \<le> b"
  proof (cases "d = 0")
    case True
    then have "xb = 0" "D = 0" by (simp_all add: xb_def D_def)
    then have "f64_round xb = Finite 0" "\<bar>0 - xb\<bar> \<le> 1 / 64" "D * (1 - 1 / 2 ^ 54) \<le> 0"
      by (simp_all add: f64_round_def)
    then show ?thesis using that by blast
  next
    case False
    with d have "1 \<le> d" by simp
    then have d1: "1 \<le> real_of_int d" by simp
    then have l: "1 / 8 \<le> xb" by (simp add: xb_def)
    from f64_round_abs [OF l xb_hi]
    obtain w where w: "f64_round xb = Finite w" "\<bar>w - xb\<bar> \<le> 2 ^ 48 / 2 ^ 54" by auto
    have w2: "\<bar>w - xb\<bar> \<le> 1 / 64" using w(2) by simp
    have "1 / 8 \<le> D" using d1 by (simp add: D_def)
    moreover have "D \<le> 2 ^ 999" using D_hi big by simp
    ultimately have "D * (1 - 1 / 2 ^ 54) \<le> w" using w(1) unfolding xbD
      by (rule f64_round_shift_lower)
    with w(1) w2 show ?thesis using that by blast
  qed
  have al: "A - 1 / 20 \<le> a"
  proof -
    have "A * (1 - 1 / 2 ^ 54) = A - A / 2 ^ 54" by (simp add: field_simps)
    then show ?thesis using a_low sA(2) by linarith
  qed
  have bl: "D - 1 / 80 \<le> b"
  proof -
    have "D * (1 - 1 / 2 ^ 54) = D - D / 2 ^ 54" by (simp add: field_simps)
    then show ?thesis using b(3) sD(2) by linarith
  qed
  have b_up: "b - D \<le> 1 / 64 + 1 / 80" using b(2) xbS sD(2) by linarith
  have z_up: "a + b - E \<le> 1 / 10 + 1 / 64 + 1 / 80" using a_up b_up EAD by linarith
  have z_dn: "E - 1 / 16 \<le> a + b" using al bl EAD by linarith
  have z_lo: "1 / 8 \<le> a + b" using z_dn E_lo by linarith
  have z_hi: "a + b < 2 ^ 50" using z_up E_hi by linarith
  obtain s where s: "f64_round (a + b) = Finite s" "\<bar>s - (a + b)\<bar> \<le> 1 / 16"
  proof -
    from f64_round_abs [OF z_lo z_hi]
    obtain w where "f64_round (a + b) = Finite w" "\<bar>w - (a + b)\<bar> \<le> 2 ^ 50 / 2 ^ 54" by auto
    then show ?thesis using that by simp
  qed
  have close: "\<bar>s - E\<bar> < 1 / 5" using s(2) z_up z_dn by linarith
  define k where "k = (4 * r + d) div 5"
  define m where "m = (4 * r + d) mod 5"
  have km: "4 * r + d = 5 * k + m" "0 \<le> m" "m < 5" by (simp_all add: k_def m_def)
  have Ek: "E = real_of_int k + real_of_int m / 5"
  proof -
    have "real_of_int (4 * r + d) = real_of_int (5 * k + m)" by (simp only: km(1))
    then show ?thesis by (simp add: E_def)
  qed
  have lower: "real_of_int k \<le> s"
  proof (cases "m = 0")
    case True
    then have Ek0: "E = real_of_int k" using Ek by simp
    have "4 / 5 \<le> real_of_int k" using E_lo Ek0 by simp
    then have "0 < real_of_int k" by linarith
    then have k1: "1 \<le> k" by simp
    have "(A + D) * (1 - 1 / 2 ^ 54) = A * (1 - 1 / 2 ^ 54) + D * (1 - 1 / 2 ^ 54)"
      by (rule distrib_right)
    then have z1: "real_of_int k * (1 - 1 / 2 ^ 54) \<le> a + b"
      using a_low b(3) unfolding Ek0 [symmetric] EAD by linarith
    have "(2::real) ^ 50 \<le> 2 ^ 53" by simp
    then have z2: "a + b < 2 ^ 53" using z_hi by linarith
    show ?thesis using k1 z1 z2 s(1) by (rule f64_round_reach)
  next
    case False
    with km have "1 \<le> m" by simp
    then have "1 \<le> real_of_int m" by simp
    then have "real_of_int k + 1 / 5 \<le> E" unfolding Ek by simp
    then show ?thesis using close by linarith
  qed
  have upper: "s < real_of_int k + 1"
  proof -
    have "m \<le> 4" using km by simp
    then have "real_of_int m \<le> 4" by simp
    then have "E \<le> real_of_int k + 4 / 5" unfolding Ek by simp
    then show ?thesis using close by linarith
  qed
  have fl: "\<lfloor>s\<rfloor> = k" using lower upper by (intro floor_unique) simp_all
  have s0: "0 \<le> s" using close E_lo by linarith
  have s1: "s < 2 ^ 50" using close E_hi by linarith
  have "fadd (fmul c08 (float64_of_int r)) (fmul c02 (float64_of_int d)) = Finite s"
    using a(1) b(1) s(1) by (simp add: R Dd c08_val c02_val xa_def xb_def)
  with fl s0 s1 show ?thesis unfolding k_def by blast
qed

subsection \<open>The round trip time\<close>

lemma rtt_exact_div:
  "\<lfloor>(8 / 10) * real_of_int r + (2 / 10) * real_of_int d\<rfloor> = (4 * r + d) div 5"
proof -
  have "(8 / 10) * real_of_int r + (2 / 10) * real_of_int d
          = real_of_int (4 * r + d) / real_of_int 5" by simp
  then show ?thesis by (simp only: floor_divide_of_int_eq)
qed

lemma setRTT_floor:
  assumes "0 < length_l l" and "length_l l < 2 ^ 50" and "0 \<le> d" and "d < 2 ^ 50"
  shows "setRTT ub d l =
           l\<lparr>length_l := \<lfloor>(8 / 10) * real_of_int (length_l l) + (2 / 10) * real_of_int d\<rfloor>\<rparr>"
proof -
  from rtt_average_floor [OF assms]
  obtain s where s:
    "fadd (fmul c08 (float64_of_int (length_l l))) (fmul c02 (float64_of_int d)) = Finite s"
    "0 \<le> s" "s < 2 ^ 50" "\<lfloor>s\<rfloor> = (4 * length_l l + d) div 5"
    by blast
  have s1: "s < 2 ^ 63"
  proof -
    have "(2::real) ^ 50 \<le> 2 ^ 63" by simp
    with s(3) show ?thesis by linarith
  qed
  have s2: "- (2 ^ 63) \<le> s"
  proof -
    have "- ((2::real) ^ 63) \<le> 0" by simp
    with s(2) show ?thesis by linarith
  qed
  have "int64_of_float64 ub (Finite s) = \<lfloor>s\<rfloor>"
    using s(2) s1 s2 by (simp add: int64_of_float64_def)
  then have "setRTT ub d l = l\<lparr>length_l := \<lfloor>s\<rfloor>\<rparr>"
    using assms(1) by (simp add: setRTT_def s(1))
  then show ?thesis by (simp only: s(4) rtt_exact_div)
qed

text \<open>
  Claim C6, as amended. \<^verbatim>\<open>setRTT\<close> with sample \<open>d\<close> sets the estimate to \<open>d\<close> when the
  current estimate is zero or negative. Otherwise it sets it to the float64 value of
  \<^verbatim>\<open>0.8*float64(rtt) + 0.2*float64(d)\<close> truncated to an integer; for an estimate below
  \<open>2^50\<close> ns and a sample from 0 to below \<open>2^50\<close> ns this is the exact average truncated,
  \<open>\<lfloor>0.8 rtt + 0.2 d\<rfloor>\<close>. No other field of the link changes.
\<close>

theorem setRTT_average:
  "(length_l l \<le> 0 \<longrightarrow> setRTT ub d l = l\<lparr>length_l := d\<rparr>)
   \<and> (0 < length_l l \<longrightarrow>
        setRTT ub d l =
          l\<lparr>length_l := int64_of_float64 ub
               (fadd (fmul c08 (float64_of_int (length_l l))) (fmul c02 (float64_of_int d)))\<rparr>)
   \<and> (0 < length_l l \<and> length_l l < 2 ^ 50 \<and> 0 \<le> d \<and> d < 2 ^ 50 \<longrightarrow>
        setRTT ub d l =
          l\<lparr>length_l := \<lfloor>(8 / 10) * real_of_int (length_l l) + (2 / 10) * real_of_int d\<rfloor>\<rparr>)"
proof -
  have 1: "length_l l \<le> 0 \<longrightarrow> setRTT ub d l = l\<lparr>length_l := d\<rparr>"
    by (simp add: setRTT_def)
  have 2: "0 < length_l l \<longrightarrow>
        setRTT ub d l =
          l\<lparr>length_l := int64_of_float64 ub
               (fadd (fmul c08 (float64_of_int (length_l l))) (fmul c02 (float64_of_int d)))\<rparr>"
    by (simp add: setRTT_def)
  have 3: "0 < length_l l \<and> length_l l < 2 ^ 50 \<and> 0 \<le> d \<and> d < 2 ^ 50 \<longrightarrow>
        setRTT ub d l =
          l\<lparr>length_l := \<lfloor>(8 / 10) * real_of_int (length_l l) + (2 / 10) * real_of_int d\<rfloor>\<rparr>"
    using setRTT_floor [of l d ub] by blast
  from 1 2 3 show ?thesis by blast
qed

theorem setRTT_average_witness:
  "length_l (newLink ''r'' ''u'' 0) \<le> 0
   \<and> setRTT 0 200 (newLink ''r'' ''u'' 0) = (newLink ''r'' ''u'' 0)\<lparr>length_l := 200\<rparr>
   \<and> 0 < length_l (ex_good\<lparr>length_l := 100\<rparr>)
   \<and> setRTT 0 200 (ex_good\<lparr>length_l := 100\<rparr>) = ex_good\<lparr>length_l := 120\<rparr>
   \<and> length_l ex_good = 1
   \<and> setRTT 0 4 ex_good = ex_good\<lparr>length_l := 1\<rparr>"
proof -
  let ?n = "newLink ''r'' ''u'' 0"
  let ?g = "ex_good\<lparr>length_l := 100\<rparr>"
  have a: "length_l ?n \<le> 0" by (simp add: newLink_def)
  have b: "0 < length_l ?g \<and> length_l ?g < 2 ^ 50 \<and> (0::int) \<le> 200 \<and> (200::int) < 2 ^ 50"
    by simp
  have c: "length_l ex_good = 1" by (simp add: ex_good_def)
  have d: "0 < length_l ex_good \<and> length_l ex_good < 2 ^ 50 \<and> (0::int) \<le> 4 \<and> (4::int) < 2 ^ 50"
    by (simp add: c)
  have f: "\<lfloor>(8 / 10) * real_of_int (length_l ?g) + (2 / 10) * real_of_int 200\<rfloor> = 120"
    by simp
  have g: "\<lfloor>(8 / 10) * real_of_int (length_l ex_good) + (2 / 10) * real_of_int 4\<rfloor> = 1"
    unfolding c by (simp add: floor_eq_iff)
  from setRTT_average [where l = ?n and ub = 0 and d = 200] a
  have x: "setRTT 0 200 ?n = ?n\<lparr>length_l := 200\<rparr>" by blast
  from setRTT_average [where l = ?g and ub = 0 and d = 200] b
  have "setRTT 0 200 ?g
          = ?g\<lparr>length_l := \<lfloor>(8 / 10) * real_of_int (length_l ?g) + (2 / 10) * real_of_int 200\<rfloor>\<rparr>"
    by blast
  then have y: "setRTT 0 200 ?g = ex_good\<lparr>length_l := 120\<rparr>" by (simp only: f) simp
  from setRTT_average [where l = ex_good and ub = 0 and d = 4] d
  have "setRTT 0 4 ex_good
          = ex_good\<lparr>length_l := \<lfloor>(8 / 10) * real_of_int (length_l ex_good) + (2 / 10) * real_of_int 4\<rfloor>\<rparr>"
    by blast
  then have z: "setRTT 0 4 ex_good = ex_good\<lparr>length_l := 1\<rparr>" by (simp only: g)
  have p: "0 < length_l ?g" by simp
  from a x p y c z show ?thesis by blast
qed

text \<open>
  The claim as first stated fails where the rounding of float64 shows: with an estimate of
  \<open>2^50\<close> ns and a sample of \<open>2^50 + 4\<close> ns the code stores \<open>2^50 + 1\<close>, and the exact
  average \<open>2^50 + 0.8\<close> truncated is \<open>2^50\<close>.
\<close>

theorem setRTT_average_counterexample:
  "length_l (setRTT 0 1125899906842628 (ex_good\<lparr>length_l := 1125899906842624\<rparr>))
     = 1125899906842625
   \<and> \<lfloor>(8 / 10) * real_of_int 1125899906842624 + (2 / 10) * real_of_int 1125899906842628\<rfloor>
       = 1125899906842624"
proof -
  have "length_l (setRTT 0 1125899906842628 (ex_good\<lparr>length_l := 1125899906842624\<rparr>))
          = 1125899906842625"
    by (simp add: setRTT_def float64_of_int_def c08_val c02_val f64_eval int64_of_float64_def)
  moreover have
    "\<lfloor>(8 / 10) * real_of_int 1125899906842624 + (2 / 10) * real_of_int 1125899906842628\<rfloor>
       = 1125899906842624"
    by (simp add: floor_eq_iff)
  ultimately show ?thesis ..
qed
subsection \<open>The rate\<close>

lemma f64_round_mid:
  assumes "1 / 2 ^ 100 \<le> x" and "x \<le> 2 ^ 1000"
  shows "\<exists>y. f64_round x = Finite y \<and> \<bar>y - x\<bar> \<le> x / 2 ^ 53"
proof -
  have x0: "0 \<le> x"
  proof -
    have "(0::real) \<le> 1 / 2 ^ 100" by simp
    then show ?thesis using assms(1) by (rule order_trans)
  qed
  have "(2::real) ^ 100 \<le> 2 ^ 1022" by (rule power_increasing) simp_all
  then have "pow2 (- 1022) \<le> 1 / 2 ^ 100" by (simp add: pow2_def field_simps)
  then have lo: "pow2 (- 1022) \<le> \<bar>x\<bar>" using assms(1) by linarith
  have "(2::real) ^ 1000 \<le> 2 ^ 1023" by (rule power_increasing) simp_all
  with assms(2) have "x \<le> 2 ^ 1023" by (rule order_trans)
  then have hi: "\<bar>x\<bar> \<le> 2 ^ 1023" using x0 by simp
  from f64_round_rel [OF lo hi] obtain y where "f64_round x = Finite y" "\<bar>y - x\<bar> \<le> \<bar>x\<bar> / 2 ^ 53"
    by blast
  then show ?thesis using x0 by auto
qed

text \<open>One more rounding of a value that is within \<open>a\<close> of \<open>x\<close>.\<close>

lemma round_near:
  assumes yx: "\<bar>y - x\<bar> \<le> a" and a: "a \<le> x / 1024" and x: "0 < x"
    and lo: "1 / 2 ^ 100 \<le> y" and hi: "y \<le> 2 ^ 1000"
  shows "\<exists>z. f64_round y = Finite z \<and> \<bar>z - x\<bar> \<le> a + (1025 / 1024) * x / 2 ^ 53"
proof -
  from f64_round_mid [OF lo hi] obtain z where z: "f64_round y = Finite z" "\<bar>z - y\<bar> \<le> y / 2 ^ 53"
    by blast
  have "y \<le> (1025 / 1024) * x" using yx a by linarith
  then have "y / 2 ^ 53 \<le> (1025 / 1024) * x / 2 ^ 53" by (intro divide_right_mono) simp_all
  with z(2) yx have "\<bar>z - x\<bar> \<le> a + (1025 / 1024) * x / 2 ^ 53" by linarith
  with z(1) show ?thesis by blast
qed

lemma sint_bits: "0 \<le> k \<Longrightarrow> k < 2 ^ 63 \<Longrightarrow> sint (word_of_int k :: 64 word) = k"
  by (simp add: sint_sbintrunc' signed_take_bit_int_eq_self)

lemma sample_close:
  assumes b: "1024 \<le> bits" "bits < 2 ^ 53" and dl: "0 < delta" "delta < 2 ^ 53"
  shows "\<exists>s. fmul (fdiv (float64_of_int bits) (float64_of_int delta)) c1e9 = Finite s
           \<and> \<bar>s - real_of_int bits * 1000000000 / real_of_int delta\<bar>
               \<le> 3 / 2 ^ 53 * (real_of_int bits * 1000000000 / real_of_int delta)
           \<and> 1 / 2 ^ 14 \<le> real_of_int bits * 1000000000 / real_of_int delta
           \<and> real_of_int bits * 1000000000 / real_of_int delta \<le> 2 ^ 83"
proof -
  define B where "B = real_of_int bits"
  define D where "D = real_of_int delta"
  have Br: "1024 \<le> B" "B < 2 ^ 53"
    using b by (simp_all add: B_def of_int_less_numeral_power_cancel_iff [where 'a = real, symmetric]
        del: of_int_less_numeral_power_cancel_iff)
  have Dr: "1 \<le> D" "D < 2 ^ 53"
    using dl by (simp_all add: D_def of_int_less_numeral_power_cancel_iff [where 'a = real, symmetric]
        del: of_int_less_numeral_power_cancel_iff)
  have fb: "float64_of_int bits = Finite B" unfolding B_def using b by (intro float64_of_int_exact) simp
  have fd: "float64_of_int delta = Finite D" unfolding D_def using dl by (intro float64_of_int_exact) simp
  define q where "q = B / D"
  have q_lo: "1024 / 2 ^ 53 \<le> q" unfolding q_def using Br Dr by (intro frac_le) simp_all
  have q_hi: "q \<le> 2 ^ 53"
  proof -
    have "B / D \<le> B / 1" using Br Dr by (intro frac_le) simp_all
    then show ?thesis using Br by (simp add: q_def)
  qed
  have q0: "0 < q"
  proof -
    have "(0::real) < 1024 / 2 ^ 53" by simp
    then show ?thesis using q_lo by (rule less_le_trans)
  qed
  obtain q' where q': "f64_round q = Finite q'" "\<bar>q' - q\<bar> \<le> q / 2 ^ 53"
  proof -
    have "1 / 2 ^ 100 \<le> (1024 / 2 ^ 53 :: real)" by simp
    then have "1 / 2 ^ 100 \<le> q" using q_lo by (rule order_trans)
    moreover have "(2::real) ^ 53 \<le> 2 ^ 1000" by (rule power_increasing) simp_all
    with q_hi have "q \<le> 2 ^ 1000" by (rule order_trans)
    ultimately show ?thesis using f64_round_mid that by blast
  qed
  define S where "S = q * 1000000000"
  have S_lo: "1 / 2 ^ 14 \<le> S" using q_lo by (simp add: S_def)
  have S_hi: "S \<le> 2 ^ 83" using q_hi by (simp add: S_def)
  have S0: "0 < S" using q0 by (simp add: S_def)
  have e1: "\<bar>q' * 1000000000 - S\<bar> \<le> S / 2 ^ 53"
  proof -
    have "q' * 1000000000 - S = (q' - q) * 1000000000" by (simp add: S_def left_diff_distrib)
    then have "\<bar>q' * 1000000000 - S\<bar> = \<bar>(q' - q) * 1000000000\<bar>" by (simp only:)
    also have "\<dots> = \<bar>q' - q\<bar> * 1000000000" by (simp only: abs_mult abs_numeral)
    finally have "\<bar>q' * 1000000000 - S\<bar> = \<bar>q' - q\<bar> * 1000000000" .
    also have "\<dots> \<le> q / 2 ^ 53 * 1000000000" using q'(2) by (intro mult_right_mono) simp_all
    also have "\<dots> = S / 2 ^ 53" by (simp add: S_def)
    finally show ?thesis .
  qed
  have "\<exists>s. f64_round (q' * 1000000000) = Finite s
          \<and> \<bar>s - S\<bar> \<le> S / 2 ^ 53 + (1025 / 1024) * S / 2 ^ 53"
  proof (rule round_near [OF e1 _ S0])
    show "S / 2 ^ 53 \<le> S / 1024" using S0 by (intro divide_left_mono) simp_all
    have "S / 2 ^ 53 \<le> S / 2" using S0 by (intro divide_left_mono) simp_all
    then have h: "S / 2 \<le> q' * 1000000000" "q' * 1000000000 \<le> 2 * S" using e1 S0 by linarith+
    have "1 / 2 ^ 100 \<le> (1 / 2 ^ 15 :: real)" by simp
    also have "\<dots> \<le> S / 2" using S_lo by simp
    also have "\<dots> \<le> q' * 1000000000" by (rule h(1))
    finally show "1 / 2 ^ 100 \<le> q' * 1000000000" .
    have "q' * 1000000000 \<le> 2 * S" by (rule h(2))
    also have "\<dots> \<le> 2 ^ 84" using S_hi by simp
    also have "\<dots> \<le> (2::real) ^ 1000" by (rule power_increasing) simp_all
    finally show "q' * 1000000000 \<le> 2 ^ 1000" .
  qed
  then obtain s where s: "f64_round (q' * 1000000000) = Finite s"
    "\<bar>s - S\<bar> \<le> S / 2 ^ 53 + (1025 / 1024) * S / 2 ^ 53" by blast
  have "\<bar>s - S\<bar> \<le> 3 / 2 ^ 53 * S" using s(2) S0 by simp
  moreover have "fmul (fdiv (float64_of_int bits) (float64_of_int delta)) c1e9 = Finite s"
    using Dr q'(1) s(1) by (simp add: fb fd c1e9_val q_def)
  moreover have "S = real_of_int bits * 1000000000 / real_of_int delta"
    by (simp add: S_def q_def B_def D_def)
  ultimately show ?thesis using S_lo S_hi by auto
qed

lemma rate_average_close:
  assumes x: "1 / 2 ^ 64 \<le> x" "x \<le> 2 ^ 64"
    and s: "\<bar>s - S\<bar> \<le> 3 / 2 ^ 53 * S" "1 / 2 ^ 14 \<le> S" "S \<le> 2 ^ 83"
  shows "\<exists>y. fadd (fmul c08 (Finite x)) (fmul c02 (Finite s)) = Finite y
           \<and> \<bar>y - (8 / 10 * x + 2 / 10 * S)\<bar> \<le> (8 / 10 * x + 2 / 10 * S) / 2 ^ 50"
proof -
  define Ta where "Ta = 8 / 10 * x"
  define Tb where "Tb = 2 / 10 * S"
  define xa where "xa = 3602879701896397 / 2 ^ 52 * x"
  define xb where "xb = 3602879701896397 / 2 ^ 54 * s"
  have x0: "0 < x"
  proof -
    have "(0::real) < 1 / 2 ^ 64" by simp
    then show ?thesis using x(1) by (rule less_le_trans)
  qed
  have S0: "0 < S"
  proof -
    have "(0::real) < 1 / 2 ^ 14" by simp
    then show ?thesis using s(2) by (rule less_le_trans)
  qed
  have Ta0: "0 < Ta" using x0 by (simp add: Ta_def)
  have Tb0: "0 < Tb" using S0 by (simp add: Tb_def)
  have Ta_lo: "1 / 2 ^ 65 \<le> Ta" using x(1) by (simp add: Ta_def)
  have Ta_hi: "Ta \<le> 2 ^ 64" using x(2) x0 by (simp add: Ta_def)
  have Tb_lo: "1 / 2 ^ 17 \<le> Tb" using s(2) by (simp add: Tb_def)
  have Tb_hi: "Tb \<le> 2 ^ 83" using s(3) S0 by (simp add: Tb_def)
  have ea: "\<bar>xa - Ta\<bar> \<le> Ta / 2 ^ 54"
  proof -
    have "xa - Ta = Ta / 2 ^ 54" by (simp add: xa_def Ta_def)
    then show ?thesis using Ta0 by simp
  qed
  have s_b: "S / 2 \<le> s" "s \<le> 2 * S"
  proof -
    have "3 / 2 ^ 53 * S \<le> S / 2" using S0 by simp
    then show "S / 2 \<le> s" "s \<le> 2 * S" using s(1) by linarith+
  qed
  have eb: "\<bar>xb - Tb\<bar> \<le> 4 / 2 ^ 53 * Tb"
  proof -
    have "xb - Tb = 2 / 10 * (s - S) + 2 / 10 * s / 2 ^ 54" by (simp add: xb_def Tb_def field_simps)
    moreover have "\<bar>2 / 10 * (s - S)\<bar> \<le> 2 / 10 * (3 / 2 ^ 53 * S)"
      using s(1) by (simp add: abs_mult)
    moreover have "\<bar>2 / 10 * s / 2 ^ 54\<bar> \<le> 2 / 10 * (2 * S) / 2 ^ 54"
      using s_b S0 by (simp add: abs_mult)
    moreover have "2 / 10 * (3 / 2 ^ 53 * S) + 2 / 10 * (2 * S) / 2 ^ 54 = 4 / 2 ^ 53 * Tb"
      by (simp add: Tb_def)
    ultimately show ?thesis by linarith
  qed
  obtain A where A: "f64_round xa = Finite A" "\<bar>A - Ta\<bar> \<le> Ta / 2 ^ 54 + (1025 / 1024) * Ta / 2 ^ 53"
  proof -
    have 1: "Ta / 2 ^ 54 \<le> Ta / 1024" using Ta0 by simp
    have b: "Ta / 2 \<le> xa" "xa \<le> 2 * Ta" using ea 1 Ta0 by linarith+
    have "1 / 2 ^ 100 \<le> (1 / 2 ^ 66 :: real)" by simp
    also have "\<dots> \<le> Ta / 2" using Ta_lo by simp
    also have "\<dots> \<le> xa" by (rule b(1))
    finally have 2: "1 / 2 ^ 100 \<le> xa" .
    have "xa \<le> 2 * Ta" by (rule b(2))
    also have "\<dots> \<le> 2 ^ 65" using Ta_hi by simp
    also have "\<dots> \<le> (2::real) ^ 1000" by (rule power_increasing) simp_all
    finally have 3: "xa \<le> 2 ^ 1000" .
    from round_near [OF ea 1 Ta0 2 3] that show ?thesis by blast
  qed
  obtain B where B: "f64_round xb = Finite B" "\<bar>B - Tb\<bar> \<le> 4 / 2 ^ 53 * Tb + (1025 / 1024) * Tb / 2 ^ 53"
  proof -
    have 1: "4 / 2 ^ 53 * Tb \<le> Tb / 1024" using Tb0 by simp
    have b: "Tb / 2 \<le> xb" "xb \<le> 2 * Tb" using eb 1 Tb0 by linarith+
    have "1 / 2 ^ 100 \<le> (1 / 2 ^ 18 :: real)" by simp
    also have "\<dots> \<le> Tb / 2" using Tb_lo by simp
    also have "\<dots> \<le> xb" by (rule b(1))
    finally have 2: "1 / 2 ^ 100 \<le> xb" .
    have "xb \<le> 2 * Tb" by (rule b(2))
    also have "\<dots> \<le> 2 ^ 84" using Tb_hi by simp
    also have "\<dots> \<le> (2::real) ^ 1000" by (rule power_increasing) simp_all
    finally have 3: "xb \<le> 2 ^ 1000" .
    from round_near [OF eb 1 Tb0 2 3] that show ?thesis by blast
  qed
  define T where "T = Ta + Tb"
  have T0: "0 < T" using Ta0 Tb0 by (simp add: T_def)
  have eA: "\<bar>A - Ta\<bar> \<le> 6 / 2 ^ 53 * Ta" using A(2) Ta0 by simp
  have eB: "\<bar>B - Tb\<bar> \<le> 6 / 2 ^ 53 * Tb" using B(2) Tb0 by simp
  have eAB: "\<bar>(A + B) - T\<bar> \<le> 6 / 2 ^ 53 * T"
  proof -
    have "6 / 2 ^ 53 * T = 6 / 2 ^ 53 * Ta + 6 / 2 ^ 53 * Tb" by (simp add: T_def distrib_left)
    then show ?thesis using eA eB unfolding T_def by linarith
  qed
  obtain y where y: "f64_round (A + B) = Finite y" "\<bar>y - T\<bar> \<le> 6 / 2 ^ 53 * T + (1025 / 1024) * T / 2 ^ 53"
  proof -
    have 1: "6 / 2 ^ 53 * T \<le> T / 1024" using T0 by simp
    have b: "T / 2 \<le> A + B" "A + B \<le> 2 * T" using eAB 1 T0 by linarith+
    have "1 / 2 ^ 100 \<le> (1 / 2 ^ 18 :: real)" by simp
    also have "\<dots> \<le> Tb / 2" using Tb_lo by simp
    also have "\<dots> \<le> T / 2" using Ta0 by (simp add: T_def)
    also have "\<dots> \<le> A + B" by (rule b(1))
    finally have 2: "1 / 2 ^ 100 \<le> A + B" .
    have "A + B \<le> 2 * T" by (rule b(2))
    also have "\<dots> \<le> 2 * (2 ^ 64 + 2 ^ 83)" using Ta_hi Tb_hi by (simp add: T_def)
    also have "\<dots> \<le> (2::real) ^ 85" by simp
    also have "\<dots> \<le> (2::real) ^ 1000" by (rule power_increasing) simp_all
    finally have 3: "A + B \<le> 2 ^ 1000" .
    from round_near [OF eAB 1 T0 2 3] that show ?thesis by blast
  qed
  have "\<bar>y - T\<bar> \<le> T / 2 ^ 50" using y(2) T0 by simp
  moreover have "fadd (fmul c08 (Finite x)) (fmul c02 (Finite s)) = Finite y"
    using A(1) B(1) y(1) by (simp add: c08_val c02_val xa_def xb_def)
  ultimately show ?thesis unfolding T_def Ta_def Tb_def by blast
qed

lemma dataSent_nonneg: "0 \<le> dataSent m"
proof -
  have "0 \<le> sum_list (map (\<lambda>(k, v). int (length k) + int (length v)) (Header m))"
    by (rule sum_list_nonneg) auto
  then show ?thesis by (simp add: dataSent_def)
qed

lemma Send_rate_success:
  assumes "\<not> link.closed l" "0 < dataSent m" "dataSent m < 2 ^ 53"
  shows "rate (snd (Send (Status None) delta m l)) =
          (if feq (rate l) (Finite 0)
           then fmul (fdiv (float64_of_int (1024 * dataSent m)) (float64_of_int delta)) c1e9
           else fadd (fmul c08 (rate l))
                  (fmul c02 (fmul (fdiv (float64_of_int (1024 * dataSent m)) (float64_of_int delta)) c1e9)))"
proof -
  have "sint (word_of_int (dataSent m * 1024) :: 64 word) = dataSent m * 1024"
    using assms by (intro sint_bits) simp_all
  then show ?thesis using assms by (simp add: Send_def setRate_def Let_def mult.commute)
qed

lemma Send_rate_close:
  assumes c: "\<not> link.closed l" and n: "0 < dataSent m" "dataSent m < 2 ^ 43"
    and dl: "0 < delta" "delta < 2 ^ 53"
    and x: "rate l = Finite x" "x = 0 \<or> 1 / 2 ^ 64 \<le> x \<and> x \<le> 2 ^ 64"
  shows "\<exists>y. rate (snd (Send (Status None) delta m l)) = Finite y
           \<and> \<bar>y - (if x = 0 then sample_bps m delta else 8 / 10 * x + 2 / 10 * sample_bps m delta)\<bar>
               \<le> (if x = 0 then sample_bps m delta else 8 / 10 * x + 2 / 10 * sample_bps m delta) / 2 ^ 50"
proof -
  let ?bits = "1024 * dataSent m"
  have S: "sample_bps m delta = real_of_int ?bits * 1000000000 / real_of_int delta"
    by (simp add: sample_bps_def dataSent_def)
  have b: "1024 \<le> ?bits" "?bits < 2 ^ 53" using n by simp_all
  from sample_close [OF b dl] obtain s where s:
    "fmul (fdiv (float64_of_int ?bits) (float64_of_int delta)) c1e9 = Finite s"
    "\<bar>s - sample_bps m delta\<bar> \<le> 3 / 2 ^ 53 * sample_bps m delta"
    "1 / 2 ^ 14 \<le> sample_bps m delta" "sample_bps m delta \<le> 2 ^ 83"
    unfolding S by blast
  have n53: "dataSent m < 2 ^ 53" using n(2) by simp
  note r = Send_rate_success [OF c n(1) n53, of delta]
  show ?thesis
  proof (cases "x = 0")
    case True
    have S0: "0 \<le> sample_bps m delta"
    proof -
      have "(0::real) \<le> 1 / 2 ^ 14" by simp
      then show ?thesis using s(3) by (rule order_trans)
    qed
    have "3 / 2 ^ 53 * sample_bps m delta \<le> sample_bps m delta / 2 ^ 50" using S0 by simp
    with s(2) have "\<bar>s - sample_bps m delta\<bar> \<le> sample_bps m delta / 2 ^ 50" by linarith
    moreover have "rate (snd (Send (Status None) delta m l)) = Finite s"
      using r True x(1) s(1) by simp
    ultimately show ?thesis using True by auto
  next
    case False
    with x(2) have xr: "1 / 2 ^ 64 \<le> x" "x \<le> 2 ^ 64" by auto
    from rate_average_close [OF xr s(2) s(3) s(4)] obtain y where y:
      "fadd (fmul c08 (Finite x)) (fmul c02 (Finite s)) = Finite y"
      "\<bar>y - (8 / 10 * x + 2 / 10 * sample_bps m delta)\<bar>
         \<le> (8 / 10 * x + 2 / 10 * sample_bps m delta) / 2 ^ 50"
      by blast
    have "rate (snd (Send (Status None) delta m l)) = Finite y"
      using r False x(1) s(1) y(1) by simp
    with y(2) False show ?thesis by auto
  qed
qed

lemma sample_eval:
  "fmul (fdiv (float64_of_int 4096) (float64_of_int 5)) c1e9 = Finite 819200000000"
  by (simp add: float64_of_int_def c1e9_val f64_eval)

lemma dataSent_ex_msg: "dataSent ex_msg = 4"
  by (simp add: dataSent_def ex_msg_def)

text \<open>
  Claim C7, as amended. A \<^verbatim>\<open>Send\<close> on an open link whose transport write succeeds and whose
  message has a positive data size updates the rate from \<open>bits = 1024 \<times> dataSent\<close> and the
  elapsed nanoseconds: the sample is \<^verbatim>\<open>float64(bits)/float64(delta) * 1e9\<close>; a rate equal to
  zero is replaced by the sample, any other rate by \<^verbatim>\<open>0.8*rate + 0.2*sample\<close>, all in
  float64. For data sizes below \<open>2^43\<close>, durations below \<open>2^53\<close> ns and a rate that is zero or
  between \<open>2^-64\<close> and \<open>2^64\<close>, the new rate is within a relative error of \<open>2^-50\<close> of the
  exact sample, or of the exact \<open>0.8 rate + 0.2 sample\<close>. A \<^verbatim>\<open>Send\<close> that fails, that
  returns \<^verbatim>\<open>EOF\<close> for a closed link, or that carries no data leaves the rate unchanged.
\<close>

theorem Send_rate:
  "(link.closed l \<longrightarrow> rate (snd (Send ev delta m l)) = rate l)
   \<and> rate (snd (Send (Status (Some e)) delta m l)) = rate l
   \<and> rate (snd (Send ClosedQueuing delta m l)) = rate l
   \<and> rate (snd (Send (ClosedWaiting taken) delta m l)) = rate l
   \<and> (dataSent m = 0 \<longrightarrow> rate (snd (Send (Status None) delta m l)) = rate l)
   \<and> (\<not> link.closed l \<and> 0 < dataSent m \<and> dataSent m < 2 ^ 53 \<longrightarrow>
        rate (snd (Send (Status None) delta m l)) =
          (if feq (rate l) (Finite 0)
           then fmul (fdiv (float64_of_int (1024 * dataSent m)) (float64_of_int delta)) c1e9
           else fadd (fmul c08 (rate l))
                  (fmul c02 (fmul (fdiv (float64_of_int (1024 * dataSent m)) (float64_of_int delta)) c1e9))))
   \<and> (\<not> link.closed l \<and> 0 < dataSent m \<and> dataSent m < 2 ^ 43 \<and> 0 < delta \<and> delta < 2 ^ 53
        \<and> rate l = Finite x \<and> (x = 0 \<or> 1 / 2 ^ 64 \<le> x \<and> x \<le> 2 ^ 64) \<longrightarrow>
        (\<exists>y. rate (snd (Send (Status None) delta m l)) = Finite y
           \<and> \<bar>y - (if x = 0 then sample_bps m delta else 8 / 10 * x + 2 / 10 * sample_bps m delta)\<bar>
               \<le> (if x = 0 then sample_bps m delta
                   else 8 / 10 * x + 2 / 10 * sample_bps m delta) / 2 ^ 50))"
proof -
  have 1: "link.closed l \<longrightarrow> rate (snd (Send ev delta m l)) = rate l" by (simp add: Send_def)
  have 2: "rate (snd (Send (Status (Some e)) delta m l)) = rate l" by (simp add: Send_def)
  have 3: "rate (snd (Send ClosedQueuing delta m l)) = rate l" by (simp add: Send_def Close_def)
  have 4: "rate (snd (Send (ClosedWaiting taken) delta m l)) = rate l"
    by (simp add: Send_def Close_def)
  have 5: "dataSent m = 0 \<longrightarrow> rate (snd (Send (Status None) delta m l)) = rate l"
    by (simp add: Send_def Let_def)
  note 6 = Send_rate_success [of l m delta]
  note 7 = Send_rate_close [of l m delta x]
  from 1 2 3 4 5 6 7 show ?thesis by blast
qed

theorem Send_rate_witness:
  "\<not> link.closed ex_idle \<and> 0 < dataSent ex_msg \<and> dataSent ex_msg < 2 ^ 43
   \<and> rate ex_idle = Finite 0
   \<and> rate (snd (Send (Status None) 5 ex_msg ex_idle)) = Finite 819200000000
   \<and> sample_bps ex_msg 5 = 819200000000
   \<and> rate ex_good = Finite 1
   \<and> (\<exists>y. rate (snd (Send (Status None) 5 ex_msg ex_good)) = Finite y
          \<and> \<bar>y - 163840000000.8\<bar> \<le> 163840000000.8 / 2 ^ 50)"
proof -
  have a: "\<not> link.closed ex_idle" "rate ex_idle = Finite 0"
    by (simp_all add: ex_idle_def newLink_def)
  have b: "\<not> link.closed ex_good" "rate ex_good = Finite 1"
    by (simp_all add: ex_good_def newLink_def)
  have n: "0 < dataSent ex_msg" "dataSent ex_msg < 2 ^ 43" "dataSent ex_msg < 2 ^ 53"
    by (simp_all add: dataSent_ex_msg)
  have d: "(0::int) < 5" "(5::int) < 2 ^ 53" by simp_all
  have sb: "sample_bps ex_msg 5 = 819200000000" by (simp add: sample_bps_def ex_msg_def)
  have r1: "(1::real) = 0 \<or> 1 / 2 ^ 64 \<le> (1::real) \<and> (1::real) \<le> 2 ^ 64" by simp
  from Send_rate [of ex_idle _ 5 ex_msg] a n
  have "rate (snd (Send (Status None) 5 ex_msg ex_idle)) =
          fmul (fdiv (float64_of_int (1024 * dataSent ex_msg)) (float64_of_int 5)) c1e9"
    by simp
  then have x: "rate (snd (Send (Status None) 5 ex_msg ex_idle)) = Finite 819200000000"
    by (simp add: dataSent_ex_msg sample_eval)
  from Send_rate [of ex_good _ 5 ex_msg _ _ 1] b n d r1
  have "\<exists>y. rate (snd (Send (Status None) 5 ex_msg ex_good)) = Finite y
          \<and> \<bar>y - (if (1::real) = 0 then sample_bps ex_msg 5 else 8 / 10 * 1 + 2 / 10 * sample_bps ex_msg 5)\<bar>
              \<le> (if (1::real) = 0 then sample_bps ex_msg 5 else 8 / 10 * 1 + 2 / 10 * sample_bps ex_msg 5) / 2 ^ 50"
    by blast
  then have y: "\<exists>y. rate (snd (Send (Status None) 5 ex_msg ex_good)) = Finite y
          \<and> \<bar>y - 163840000000.8\<bar> \<le> 163840000000.8 / 2 ^ 50"
    by (simp add: sb)
  from a n b x sb y show ?thesis by blast
qed

text \<open>
  The claim as first stated fails for a send whose transport write fails: the rate of an idle
  link stays 0, although the sample of that send is not zero.
\<close>

theorem Send_rate_counterexample:
  "\<not> link.closed ex_idle \<and> rate ex_idle = Finite 0
   \<and> rate (snd (Send (Status (Some (ErrorNew ''broken pipe''))) 5 ex_msg ex_idle)) = Finite 0
   \<and> fmul (fdiv (float64_of_int (1024 * dataSent ex_msg)) (float64_of_int 5)) c1e9
       = Finite 819200000000"
  by (simp add: dataSent_ex_msg sample_eval) (simp add: Send_def ex_idle_def newLink_def)

subsection \<open>Link selection\<close>

lemma f64_round_1 [simp]: "f64_round 1 = Finite 1"
  by (simp add: f64_round_def expo_def pow2_def round_even_def Let_def compute_bitlen)

text \<open>
  What holds of the claim: a link chosen by the loop is a connected candidate, and for three
  connected links with (delay, length, rate) = (1,1,1), (2,2,2), (1,10,1) \<^verbatim>\<open>pickLink\<close>
  returns the first.
\<close>

lemma pickLink_loop_connected:
  "snd (pickLink_loop i ls (m, c)) = Some l \<Longrightarrow>
     c = Some l \<or> (l \<in> set ls \<and> State l = ''connected'')"
proof (induction ls arbitrary: i m c)
  case Nil
  then show ?case by simp
next
  case (Cons k ls)
  show ?case
  proof (cases "State k \<noteq> ''connected''")
    case True
    with Cons.prems have "snd (pickLink_loop (Suc i) ls (m, c)) = Some l" by simp
    from Cons.IH [OF this] show ?thesis by auto
  next
    case False
    let ?m = "fmul (fmul (float64_of_int (Delay k)) (float64_of_int (Length k))) (Rate k)"
    from False Cons.prems
    consider "snd (pickLink_loop (Suc i) ls (?m, Some k)) = Some l"
      | "snd (pickLink_loop (Suc i) ls (m, c)) = Some l"
      by (auto simp: Let_def split: if_splits)
    then show ?thesis
    proof cases
      case 1
      from Cons.IH [OF 1] False show ?thesis by auto
    next
      case 2
      from Cons.IH [OF 2] show ?thesis by auto
    qed
  qed
qed

lemma pickLink_best_connected:
  "snd (pickLink_loop 0 ls (Finite 0, None)) = Some l \<Longrightarrow> l \<in> set ls \<and> State l = ''connected''"
  using pickLink_loop_connected [of 0 ls "Finite 0" None l] by simp

lemma pickLink_scenario:
  "pickLink n [ex_good,
               ex_good\<lparr>sendQueue := [\<lparr>message = ex_msg, err = None\<rparr>, \<lparr>message = ex_msg, err = None\<rparr>],
                        length_l := 2, rate := Finite 2\<rparr>,
               ex_good\<lparr>length_l := 10\<rparr>] = Some ex_good"
  by (simp add: pickLink_def State_def ex_good_def newLink_def Delay_def Length_def Rate_def
        float64_of_int_def word_sless_alt f64_eval)

text \<open>
  Claim C1 fails on the code. With a closed link at index 0 and a connected link (delay 1,
  length 1, rate 1) at index 1, the loop of \<^verbatim>\<open>pickLink\<close> skips the first link, never takes
  the branch \<^verbatim>\<open>i == 0\<close>, and compares the metric 1 of the second link with the initial
  \<^verbatim>\<open>metric\<close> 0: nothing is chosen, and the random fallback with the draw 0 returns the closed
  link although a connected candidate exists.
\<close>

theorem pickLink_skips_connected:
  "State ex_closed = ''closed'' \<and> State ex_good = ''connected''
   \<and> snd (pickLink_loop 0 [ex_closed, ex_good] (Finite 0, None)) = None
   \<and> pickLink 0 [ex_closed, ex_good] = Some ex_closed"
  by (simp add: pickLink_def State_def ex_closed_def ex_good_def Close_def newLink_def Delay_def
        Length_def Rate_def float64_of_int_def word_sless_alt)

end
